theory Spec2Isabelle
  imports Main "HOL-Library.AList"
begin

section \<open>The bcl2fastq module of MultiQC\<close>

text \<open>
  A shallow embedding of \<^verbatim>\<open>multiqc/modules/bcl2fastq/bcl2fastq.py\<close>.

  Python dictionaries are association lists in insertion order: \<open>AList.update k v d\<close> is
  \<^verbatim>\<open>d[k] = v\<close> (an existing key keeps its place, a new key goes to the end),
  \<open>map_of d k\<close> is the lookup \<^verbatim>\<open>d[k]\<close> with \<open>None\<close> for a missing key, and
  \<open>AList.map_entry k g d\<close> is the in-place change \<^verbatim>\<open>d[k] = g(d[k])\<close> of an entry that
  is there. A loop over \<^verbatim>\<open>d.keys()\<close> that reads \<^verbatim>\<open>d[key]\<close> is a loop over the
  pairs of the list. Python integers are unbounded, so counts are \<open>int\<close>.
\<close>

subsection \<open>Errors and log records\<close>

datatype py_error = KeyError | ZeroDivisionError | OverflowError | UserWarning

datatype log_level = DEBUG | WARNING

type_synonym log_record = "log_level \<times> string"

subsection \<open>The input: a Stats.json document and the file it came from\<close>

text \<open>
  The decoded document, with the fields that the module reads:
  \<^verbatim>\<open>RunId\<close>, \<^verbatim>\<open>ConversionResults[].LaneNumber\<close>,
  \<^verbatim>\<open>ConversionResults[].Undetermined.NumberReads\<close>,
  \<^verbatim>\<open>ConversionResults[].DemuxResults[].SampleName\<close>, \<^verbatim>\<open>.NumberReads\<close> and
  \<^verbatim>\<open>.IndexMetrics[].MismatchCounts["0"]\<close>. The input type holds documents that have these
  fields, a string for the run id and the sample name and integers for the lane number and
  the counts; a document that lacks a field makes the Python raise at the lookup and is
  outside this type.
\<close>

record index_metric =
  MismatchCounts_0 :: int

record demux_result =
  SampleName :: string
  NumberReads :: int
  IndexMetrics :: "index_metric list"

record conversion_result =
  LaneNumber :: int
  Undetermined_NumberReads :: int
  DemuxResults :: "demux_result list"

record report =
  RunId :: string
  ConversionResults :: "conversion_result list"

text \<open>
  One entry of \<^verbatim>\<open>find_log_files\<close>: the keys \<^verbatim>\<open>"f"\<close> (the text of the file),
  \<^verbatim>\<open>"fn"\<close> (its name) and \<^verbatim>\<open>"root"\<close> (its directory).
\<close>

record myfile =
  mf_f :: string
  mf_fn :: string
  mf_root :: string

text \<open>
  \<^verbatim>\<open>json.loads\<close> belongs to the Python library. It is a parameter \<open>loads\<close> of the model:
  \<open>None\<close> stands for the \<^verbatim>\<open>ValueError\<close> that it raises on text that is not JSON.
\<close>

type_synonym json_loads = "string \<Rightarrow> report option"

subsection \<open>The derived tree and the two views\<close>

record counts =
  total_cnt :: int
  perfectIndex :: int

record sample_rec = counts +
  filename :: "string option"

record lane_rec = counts +
  samples :: "(string \<times> sample_rec) list"

record agg_rec = counts +
  undetermined :: "int option"

type_synonym run_data = "(string \<times> lane_rec) list"

type_synonym data_tree = "(string \<times> run_data) list"

record bar =
  perfect :: int
  imperfect :: int
  bar_undetermined :: "int option"

record stats_row =
  row_total :: int
  perfectPercent :: string

record header =
  title :: string
  description :: string
  minimum :: "int option"
  maximum :: "int option"
  scale :: string
  suffix :: "string option"
  shared_key :: "string option"
  modify_by_multiplier :: bool

record report_section =
  sec_name :: string
  anchor :: string
  sec_description :: string
  helptext :: string
  plot :: "(string \<times> bar) list \<times> (string \<times> string) list"

text \<open>
  The module object, together with what it has logged and what it has handed to the host
  (\<^verbatim>\<open>add_data_source\<close>, \<^verbatim>\<open>general_stats_addcols\<close>, \<^verbatim>\<open>write_data_file\<close>,
  \<^verbatim>\<open>add_section\<close>), each as the list of the calls made so far.
\<close>

record module =
  bcl2fastq_data :: data_tree
  bcl2fastq_bylane :: "(string \<times> agg_rec) list"
  bcl2fastq_bysample :: "(string \<times> agg_rec) list"
  source_files :: "(string \<times> string list) list"
  logged :: "log_record list"
  data_sources :: "(string \<times> string set) list"
  general_stats :: "((string \<times> stats_row) list \<times> (string \<times> header) list) list"
  data_files :: "(string \<times> (string \<times> agg_rec) list) list"
  sections :: "report_section list"

subsection \<open>Strings\<close>

definition digit_char :: "nat \<Rightarrow> char" where
  "digit_char d =
     (if d = 0 then CHR ''0'' else if d = 1 then CHR ''1'' else if d = 2 then CHR ''2''
      else if d = 3 then CHR ''3'' else if d = 4 then CHR ''4'' else if d = 5 then CHR ''5''
      else if d = 6 then CHR ''6'' else if d = 7 then CHR ''7'' else if d = 8 then CHR ''8''
      else CHR ''9'')"

function str_nat :: "nat \<Rightarrow> string" where
  "str_nat n = (if n < 10 then [digit_char n] else str_nat (n div 10) @ [digit_char (n mod 10)])"
  by pat_completeness auto
termination
  by (relation "measure (\<lambda>n. n)") auto

declare str_nat.simps [simp del]

text \<open>\<^verbatim>\<open>'{}'.format(i)\<close> for an integer: its decimal digits, after a minus sign when negative.\<close>

definition str_int :: "int \<Rightarrow> string" where
  "str_int i = (if i < 0 then CHR ''-'' # str_nat (nat (- i)) else str_nat (nat i))"

text \<open>\<^verbatim>\<open>os.path.join(a, b)\<close> on a POSIX system.\<close>

definition path_join :: "string \<Rightarrow> string \<Rightarrow> string" where
  "path_join a b =
     (if b \<noteq> [] \<and> hd b = CHR ''/'' then b
      else if a = [] \<or> last a = CHR ''/'' then a @ b
      else a @ ''/'' @ b)"

definition prepend_runid :: "string \<Rightarrow> string \<Rightarrow> string" where
  "prepend_runid runId rest = runId @ '' - '' @ rest"

subsection \<open>Ingestion: \<^verbatim>\<open>parse_file_as_json\<close>\<close>

text \<open>
  The body of the loop over \<^verbatim>\<open>demuxResult["IndexMetrics"]\<close>: both the lane and the
  sample of the lane gain the count of reads with no mismatch.
\<close>

definition index_step :: "string \<Rightarrow> index_metric \<Rightarrow> lane_rec \<Rightarrow> lane_rec" where
  "index_step sample indexMetric lane =
     lane\<lparr>perfectIndex := perfectIndex lane + MismatchCounts_0 indexMetric,
          samples := AList.map_entry sample
            (\<lambda>s. s\<lparr>perfectIndex := perfectIndex s + MismatchCounts_0 indexMetric\<rparr>)
            (samples lane)\<rparr>"

text \<open>The body of the loop over \<^verbatim>\<open>conversionResult["DemuxResults"]\<close>.\<close>

definition demux_step :: "myfile \<Rightarrow> demux_result \<Rightarrow> lane_rec \<Rightarrow> lane_rec" where
  "demux_step myfile demuxResult lane =
     (let sample = SampleName demuxResult;
          lane1 = lane\<lparr>samples := AList.update sample
                    \<lparr>total_cnt = 0, perfectIndex = 0,
                     filename = Some (path_join (mf_root myfile) (mf_fn myfile))\<rparr>
                    (samples lane)\<rparr>;
          lane2 = lane1\<lparr>total_cnt := total_cnt lane1 + NumberReads demuxResult\<rparr>;
          lane3 = lane2\<lparr>samples := AList.map_entry sample
                    (\<lambda>s. s\<lparr>total_cnt := total_cnt s + NumberReads demuxResult\<rparr>)
                    (samples lane2)\<rparr>
      in fold (index_step sample) (IndexMetrics demuxResult) lane3)"

text \<open>
  The record that one pass of the loop over \<^verbatim>\<open>content["ConversionResults"]\<close> leaves at
  \<^verbatim>\<open>run_data[lane]\<close>: a fresh record, filled by the loop over the samples, with the
  entry \<^verbatim>\<open>"undetermined"\<close> written last. The Python stores the fresh record first and
  fills it in place; nothing else is stored in between, so the key has the same place.
\<close>

definition lane_record :: "myfile \<Rightarrow> conversion_result \<Rightarrow> lane_rec" where
  "lane_record myfile conversionResult =
     (let lane0 = \<lparr>total_cnt = 0, perfectIndex = 0, samples = []\<rparr>;
          lane1 = fold (demux_step myfile) (DemuxResults conversionResult) lane0
      in lane1\<lparr>samples := AList.update ''undetermined''
                  \<lparr>total_cnt = Undetermined_NumberReads conversionResult, perfectIndex = 0,
                   filename = None\<rparr>
                  (samples lane1)\<rparr>)"

definition lane_name :: "conversion_result \<Rightarrow> string" where
  "lane_name conversionResult = ''L'' @ str_int (LaneNumber conversionResult)"

definition conversion_step ::
  "string \<Rightarrow> myfile \<Rightarrow> conversion_result \<Rightarrow> run_data \<times> log_record list
     \<Rightarrow> run_data \<times> log_record list" where
  "conversion_step runId myfile conversionResult st =
     (let run_data = fst st; lg = snd st;
          lane = lane_name conversionResult;
          lg1 = (if map_of run_data lane \<noteq> None
                 then lg @ [(DEBUG, ''Duplicate runId/lane combination found! Overwriting: ''
                               @ prepend_runid runId lane)]
                 else lg)
      in (AList.update lane (lane_record myfile conversionResult) run_data, lg1))"

definition parse_file_as_json :: "json_loads \<Rightarrow> module \<Rightarrow> myfile \<Rightarrow> module" where
  "parse_file_as_json loads self myfile =
     (case loads (mf_f myfile) of
        None \<Rightarrow>
          self\<lparr>logged := logged self
                  @ [(WARNING, ''Could not parse file as json: '' @ mf_fn myfile)]\<rparr>
      | Some content \<Rightarrow>
          (let runId = RunId content;
               data = (if map_of (bcl2fastq_data self) runId = None
                       then AList.update runId [] (bcl2fastq_data self)
                       else bcl2fastq_data self);
               run_data = (case map_of data runId of Some rd \<Rightarrow> rd | None \<Rightarrow> []);
               res = fold (conversion_step runId myfile) (ConversionResults content)
                       (run_data, logged self)
           in self\<lparr>bcl2fastq_data := AList.update runId (fst res) data,
                   logged := snd res\<rparr>))"

text \<open>The loop of \<^verbatim>\<open>__init__\<close> over the files that the host found.\<close>

definition ingest :: "json_loads \<Rightarrow> myfile list \<Rightarrow> module \<Rightarrow> module" where
  "ingest loads files self = fold (\<lambda>myfile st. parse_file_as_json loads st myfile) files self"

subsection \<open>Reshape: \<^verbatim>\<open>split_data_by_lane_and_sample\<close>\<close>

text \<open>A loop whose body may raise: the first error ends it.\<close>

fun foldM :: "('a \<Rightarrow> 's \<Rightarrow> py_error + 's) \<Rightarrow> 'a list \<Rightarrow> 's \<Rightarrow> py_error + 's" where
  "foldM body [] s = Inr s"
| "foldM body (x # xs) s = (case body x s of Inl e \<Rightarrow> Inl e | Inr s1 \<Rightarrow> foldM body xs s1)"

type_synonym views =
  "(string \<times> agg_rec) list \<times> (string \<times> agg_rec) list \<times> (string \<times> string list) list"

text \<open>
  The body of the loop over the samples of a lane. A sample other than
  \<^verbatim>\<open>"undetermined"\<close> is looked up for its \<^verbatim>\<open>"filename"\<close>, a key that the
  synthetic entry does not have.
\<close>

definition sample_step :: "string \<Rightarrow> string \<times> sample_rec \<Rightarrow> views \<Rightarrow> py_error + views" where
  "sample_step runId entry v =
     (let sample = fst entry; srec = snd entry;
          bylane = fst v; bysample = fst (snd v); srcs = snd (snd v);
          uniqSampleName = prepend_runid runId sample;
          bysample1 = (if map_of bysample uniqSampleName = None
                       then AList.update uniqSampleName
                              \<lparr>total_cnt = 0, perfectIndex = 0, undetermined = None\<rparr> bysample
                       else bysample);
          bysample2 = AList.map_entry uniqSampleName
                        (\<lambda>a. a\<lparr>total_cnt := total_cnt a + total_cnt srec\<rparr>) bysample1;
          bysample3 = AList.map_entry uniqSampleName
                        (\<lambda>a. a\<lparr>perfectIndex := perfectIndex a + perfectIndex srec\<rparr>) bysample2
      in if sample \<noteq> ''undetermined''
         then (let srcs1 = (if map_of srcs uniqSampleName = None
                            then AList.update uniqSampleName [] srcs else srcs)
               in case filename srec of
                    None \<Rightarrow> Inl KeyError
                  | Some name \<Rightarrow>
                      Inr (bylane, bysample3,
                           AList.map_entry uniqSampleName (\<lambda>l. l @ [name]) srcs1))
         else Inr (bylane, bysample3, srcs))"

text \<open>The body of the loop over the lanes of a run.\<close>

definition lane_step :: "string \<Rightarrow> string \<times> lane_rec \<Rightarrow> views \<Rightarrow> py_error + views" where
  "lane_step runId entry v =
     (let lane = fst entry; lrec = snd entry;
          uniqLaneName = prepend_runid runId lane
      in case map_of (samples lrec) ''undetermined'' of
           None \<Rightarrow> Inl KeyError
         | Some u \<Rightarrow>
             foldM (sample_step runId) (samples lrec)
               (AList.update uniqLaneName
                  \<lparr>total_cnt = total_cnt lrec, perfectIndex = perfectIndex lrec,
                   undetermined = Some (total_cnt u)\<rparr> (fst v),
                snd v))"

definition run_step :: "string \<times> run_data \<Rightarrow> views \<Rightarrow> py_error + views" where
  "run_step entry v = foldM (lane_step (fst entry)) (snd entry) v"

definition split_views :: "data_tree \<Rightarrow> views \<Rightarrow> py_error + views" where
  "split_views tree v = foldM run_step tree v"

definition split_data_by_lane_and_sample :: "module \<Rightarrow> py_error + module" where
  "split_data_by_lane_and_sample self =
     (case split_views (bcl2fastq_data self)
             (bcl2fastq_bylane self, bcl2fastq_bysample self, source_files self) of
        Inl e \<Rightarrow> Inl e
      | Inr v \<Rightarrow>
          Inr (self\<lparr>bcl2fastq_bylane := fst v, bcl2fastq_bysample := fst (snd v),
                    source_files := snd (snd v)\<rparr>))"

text \<open>The module as \<^verbatim>\<open>__init__\<close> has it before the first file is read.\<close>

definition new_module :: module where
  "new_module =
     \<lparr>bcl2fastq_data = [], bcl2fastq_bylane = [], bcl2fastq_bysample = [], source_files = [],
      logged = [], data_sources = [], general_stats = [], data_files = [], sections = []\<rparr>"

subsection \<open>Summaries: \<^verbatim>\<open>add_general_stats\<close> and \<^verbatim>\<open>get_bar_data_from_counts\<close>\<close>

text \<open>
  What the module takes from its surroundings: \<^verbatim>\<open>json.loads\<close>, the host's
  \<^verbatim>\<open>ignore_samples\<close>, the text of \<^verbatim>\<open>config.analysis_dir\<close>,
  \<^verbatim>\<open>config.read_count_prefix\<close> and \<^verbatim>\<open>config.read_count_desc\<close>.
\<close>

record env =
  env_loads :: json_loads
  env_ignore_samples :: "(string \<times> agg_rec) list \<Rightarrow> (string \<times> agg_rec) list"
  cfg_analysis_dir :: string
  cfg_read_count_prefix :: string
  cfg_read_count_desc :: string

text \<open>
  The percentage is \<^verbatim>\<open>'{0:.1f}'.format(float(100.0*p/t))\<close>. A Python float is a
  binary64 number: 53 significant bits, and every operation gives the double nearest to its
  exact result, a tie going to the even one. A finite double that is not negative is kept
  here as the fraction it denotes, a pair of numerator and denominator.

  \<open>bit_length n\<close> is \<^verbatim>\<open>n.bit_length()\<close>; \<open>rhe_div a b\<close> is the integer nearest
  to \<open>a / b\<close>, the even one at a tie; \<open>floor_log2 a b\<close> is the \<open>e\<close> with
  \<open>2 ^ e \<le> a / b < 2 ^ (e + 1)\<close>; \<open>round53\<close> rounds a positive fraction to 53
  significant bits.
\<close>

function bit_length :: "int \<Rightarrow> nat" where
  "bit_length n = (if 0 < n then Suc (bit_length (n div 2)) else 0)"
  by pat_completeness auto
termination
  by (relation "measure nat") auto

declare bit_length.simps [simp del]

definition rhe_div :: "int \<Rightarrow> int \<Rightarrow> int" where
  "rhe_div a b =
     (let q = a div b; r = a mod b
      in if 2 * r < b then q else if b < 2 * r then q + 1 else if even q then q else q + 1)"

definition floor_log2 :: "int \<Rightarrow> int \<Rightarrow> int" where
  "floor_log2 a b =
     (let k = int (bit_length a) - int (bit_length b)
      in if (if 0 \<le> k then b * 2 ^ nat k \<le> a else b \<le> a * 2 ^ nat (- k)) then k else k - 1)"

definition round53 :: "int \<times> int \<Rightarrow> int \<times> int" where
  "round53 x =
     (let a = fst x; b = snd x
      in if a = 0 then (0, 1)
         else (let s = floor_log2 a b - 52
               in if 0 \<le> s then (rhe_div a (b * 2 ^ nat s) * 2 ^ nat s, 1)
                  else (rhe_div (a * 2 ^ nat (- s)) b, 2 ^ nat (- s))))"

text \<open>
  An integer goes into a float operation only when it rounds to a finite double; otherwise
  Python raises \<^verbatim>\<open>OverflowError\<close>.
\<close>

definition fits_float :: "int \<Rightarrow> bool" where
  "fits_float n = (\<bar>n\<bar> < 2 ^ 1024 - 2 ^ 970)"

text \<open>
  The string for counts \<open>p\<close> and \<open>t\<close> that fit a float, \<open>t\<close> not 0. The sign is
  that of the quotient (of the divisor when \<open>p\<close> is 0, which gives a negative zero). The
  product \<^verbatim>\<open>100.0*p\<close> is rounded, and is infinite from \<open>2 ^ 1024\<close> on; the quotient
  is rounded (with counts of this range it is 0 or in the normal range of a double); the
  format rounds ten times the quotient to an integer, the even one at a tie, and writes it
  with one digit after the point.
\<close>

definition format_percent :: "int \<Rightarrow> int \<Rightarrow> string" where
  "format_percent p t =
     (let sign = (if (if p = 0 then t < 0 else (p < 0) \<noteq> (t < 0)) then ''-'' else []);
          a = round53 (\<bar>p\<bar>, 1);
          b = round53 (100 * fst a, snd a)
      in if 2 ^ 1024 * snd b \<le> fst b then sign @ ''inf''
         else (let c = round53 (\<bar>t\<bar>, 1);
                   q = round53 (fst b * snd c, snd b * fst c);
                   n = rhe_div (10 * fst q) (snd q)
               in sign @ str_nat (nat (n div 10)) @ ''.'' @ str_nat (nat (n mod 10))))"

text \<open>
  \<^verbatim>\<open>100.0*p/t\<close>: the product converts \<open>p\<close>, the division converts \<open>t\<close> and then
  refuses a zero divisor.
\<close>

definition perfect_percent :: "int \<Rightarrow> int \<Rightarrow> py_error + string" where
  "perfect_percent p t =
     (if \<not> fits_float p then Inl OverflowError
      else if \<not> fits_float t then Inl OverflowError
      else if t = 0 then Inl ZeroDivisionError
      else Inr (format_percent p t))"

text \<open>The dictionary comprehension of \<^verbatim>\<open>add_general_stats\<close>, key by key.\<close>

fun stats_rows :: "(string \<times> agg_rec) list \<Rightarrow> py_error + (string \<times> stats_row) list" where
  "stats_rows [] = Inr []"
| "stats_rows (entry # rest) =
     (case perfect_percent (perfectIndex (snd entry)) (total_cnt (snd entry)) of
        Inl e \<Rightarrow> Inl e
      | Inr pp \<Rightarrow>
          (case stats_rows rest of
             Inl e \<Rightarrow> Inl e
           | Inr rows \<Rightarrow>
               Inr ((fst entry, \<lparr>row_total = total_cnt (snd entry), perfectPercent = pp\<rparr>)
                    # rows)))"

definition general_stats_headers :: "env \<Rightarrow> (string \<times> header) list" where
  "general_stats_headers env =
     [(''total'',
       \<lparr>title = cfg_read_count_prefix env @ '' Total Reads'',
        description =
          ''Total number of reads for this sample as determined by bcl2fastq demultiplexing (''
          @ cfg_read_count_desc env @ '')'',
        minimum = Some 0, maximum = None, scale = ''Blues'', suffix = None,
        shared_key = Some ''read_count'', modify_by_multiplier = True\<rparr>),
      (''perfectPercent'',
       \<lparr>title = ''Perfect Index Read Percentage'',
        description = ''Percent of reads with perfect index (0 mismatches)'',
        minimum = Some 0, maximum = Some 100, scale = ''RdYlGn'', suffix = Some ''%'',
        shared_key = None, modify_by_multiplier = False\<rparr>)]"

definition add_general_stats :: "env \<Rightarrow> module \<Rightarrow> py_error + module" where
  "add_general_stats env self =
     (case stats_rows (bcl2fastq_bysample self) of
        Inl e \<Rightarrow> Inl e
      | Inr data \<Rightarrow>
          Inr (self\<lparr>general_stats := general_stats self
                       @ [(data, general_stats_headers env)]\<rparr>))"

definition get_bar_data_from_counts :: "(string \<times> agg_rec) list \<Rightarrow> (string \<times> bar) list" where
  "get_bar_data_from_counts counts =
     fold (\<lambda>entry bar_data.
             AList.update (fst entry)
               \<lparr>perfect = perfectIndex (snd entry),
                imperfect = total_cnt (snd entry) - perfectIndex (snd entry),
                bar_undetermined = undetermined (snd entry)\<rparr> bar_data)
       counts []"

subsection \<open>The constructor \<^verbatim>\<open>__init__\<close>\<close>

definition cats :: "(string \<times> string) list" where
  "cats = [(''perfect'', ''Perfect Index Reads''), (''imperfect'', ''Mismatched Index Reads''),
           (''undetermined'', ''Undetermined Reads'')]"

text \<open>
  \<^verbatim>\<open>add_data_source\<close> for one key of \<^verbatim>\<open>source_files\<close>: the host receives the
  paths as a set (the Python joins the elements of a \<^verbatim>\<open>set\<close>, in no fixed order).
\<close>

definition add_data_source :: "string \<times> string list \<Rightarrow> module \<Rightarrow> module" where
  "add_data_source entry self =
     self\<lparr>data_sources := data_sources self @ [(fst entry, set (snd entry))]\<rparr>"

definition write_data_file :: "(string \<times> agg_rec) list \<Rightarrow> string \<Rightarrow> module \<Rightarrow> module" where
  "write_data_file data name self = self\<lparr>data_files := data_files self @ [(name, data)]\<rparr>"

definition add_section :: "report_section \<Rightarrow> module \<Rightarrow> module" where
  "add_section sec self = self\<lparr>sections := sections self @ [sec]\<rparr>"

definition section_bylane :: "module \<Rightarrow> report_section" where
  "section_bylane self =
     \<lparr>sec_name = ''Clusters by lane'', anchor = ''bcl2fastq-bylane'',
      sec_description = ''Number of reads per lane (with number of perfect index reads)'',
      helptext = ''Perfect index reads are those that do not have a single mismatch. All samples of a lane are combined. Undetermined reads are treated as a third category. To avoid conflicts the run ID is prepended.'',
      plot = (get_bar_data_from_counts (bcl2fastq_bylane self), cats)\<rparr>"

definition section_bysample :: "module \<Rightarrow> report_section" where
  "section_bysample self =
     \<lparr>sec_name = ''Clusters by sample'', anchor = ''bcl2fastq-bysample'',
      sec_description = ''Number of reads per sample (with number of perfect index reads)'',
      helptext = ''Perfect index reads are those that do not have a single mismatch. All samples are aggregated across lanes combinned. Undetermined reads are ignored. Undetermined reads are treated as a separate sample. To avoid conflicts the runId is prepended.'',
      plot = (get_bar_data_from_counts (bcl2fastq_bysample self), cats)\<rparr>"

text \<open>
  Everything after the test for "no data": the data sources, the general statistics, the two
  data files and the two sections, in the order of the source.
\<close>

definition report_outputs :: "env \<Rightarrow> module \<Rightarrow> py_error option \<times> module" where
  "report_outputs env self =
     (let self1 = fold add_data_source (source_files self) self
      in case add_general_stats env self1 of
           Inl e \<Rightarrow> (Some e, self1)
         | Inr self2 \<Rightarrow>
             (let self3 = write_data_file (bcl2fastq_bylane self2)
                            ''multiqc_bcl2fastq_bylane'' self2;
                  self4 = write_data_file (bcl2fastq_bysample self3)
                            ''multiqc_bcl2fastq_bysample'' self3;
                  self5 = add_section (section_bylane self4) self4;
                  self6 = add_section (section_bysample self5) self5
              in (None, self6)))"

text \<open>
  The result of \<^verbatim>\<open>__init__\<close> on the files that \<^verbatim>\<open>find_log_files\<close> yields: the
  exception that ended it, if any, and the module with what was logged and handed to the
  host up to that point. A raise inside \<^verbatim>\<open>split_data_by_lane_and_sample\<close> or
  \<^verbatim>\<open>add_general_stats\<close> happens before either has logged or called the host, so
  the module of the moment they were entered is returned.
\<close>

definition init :: "env \<Rightarrow> myfile list \<Rightarrow> py_error option \<times> module" where
  "init env files =
     (let self1 = ingest (env_loads env) files new_module
      in case split_data_by_lane_and_sample self1 of
           Inl e \<Rightarrow> (Some e, self1)
         | Inr self2 \<Rightarrow>
             (let self3 = self2\<lparr>bcl2fastq_bylane :=
                                  env_ignore_samples env (bcl2fastq_bylane self2)\<rparr>;
                  self4 = self3\<lparr>bcl2fastq_bysample :=
                                  env_ignore_samples env (bcl2fastq_bysample self3)\<rparr>
              in if length (bcl2fastq_bylane self4) = 0
                    \<and> length (bcl2fastq_bysample self4) = 0
                 then (Some UserWarning,
                       self4\<lparr>logged := logged self4
                                @ [(DEBUG, ''Could not find any bcl2fastq data in ''
                                            @ cfg_analysis_dir env)]\<rparr>)
                 else report_outputs env self4))"


section \<open>Auxiliary definitions\<close>

subsection \<open>Reading a decimal numeral back\<close>

definition digit_val :: "char \<Rightarrow> nat" where
  "digit_val c = of_char c - 48"

definition nat_of_digits :: "string \<Rightarrow> nat" where
  "nat_of_digits s = foldl (\<lambda>a c. 10 * a + digit_val c) 0 s"

subsection \<open>What ingestion leaves in the tree\<close>

text \<open>
  The sample record that the loop over the samples leaves for a DemuxResults entry, the
  synthetic record of a lane, and the two assignments \<^verbatim>\<open>samples[name] = ...\<close> and
  \<^verbatim>\<open>run_data[lane] = ...\<close> as functions on the dictionaries.
\<close>

definition sample_of :: "myfile \<Rightarrow> demux_result \<Rightarrow> sample_rec" where
  "sample_of myfile d =
     \<lparr>total_cnt = NumberReads d,
      perfectIndex = sum_list (map MismatchCounts_0 (IndexMetrics d)),
      filename = Some (path_join (mf_root myfile) (mf_fn myfile))\<rparr>"

definition undetermined_of :: "conversion_result \<Rightarrow> sample_rec" where
  "undetermined_of cr =
     \<lparr>total_cnt = Undetermined_NumberReads cr, perfectIndex = 0, filename = None\<rparr>"

definition set_sample :: "myfile \<Rightarrow> demux_result \<Rightarrow> (string \<times> sample_rec) list \<Rightarrow> (string \<times> sample_rec) list" where
  "set_sample myfile d al = AList.update (SampleName d) (sample_of myfile d) al"

definition set_lane :: "myfile \<Rightarrow> conversion_result \<Rightarrow> run_data \<Rightarrow> run_data" where
  "set_lane myfile cr rd = AList.update (lane_name cr) (lane_record myfile cr) rd"

text \<open>
  The lookup of a run and a lane in the tree, and the lane records in the order in which
  the files and their conversion results are read: the last entry of a key is the one that
  the tree holds. \<open>reports_lane\<close> says that a file parses and reports the lane number
  under the run id.
\<close>

definition flat :: "data_tree \<Rightarrow> string \<times> string \<Rightarrow> lane_rec option" where
  "flat t key = (case map_of t (fst key) of None \<Rightarrow> None | Some rd \<Rightarrow> map_of rd (snd key))"

definition file_entries :: "json_loads \<Rightarrow> myfile \<Rightarrow> ((string \<times> string) \<times> lane_rec) list" where
  "file_entries loads myfile =
     (case loads (mf_f myfile) of
        None \<Rightarrow> []
      | Some c \<Rightarrow> map (\<lambda>cr. ((RunId c, lane_name cr), lane_record myfile cr))
                   (ConversionResults c))"

definition all_entries :: "json_loads \<Rightarrow> myfile list \<Rightarrow> ((string \<times> string) \<times> lane_rec) list" where
  "all_entries loads files = concat (map (file_entries loads) files)"

definition reports_lane :: "json_loads \<Rightarrow> myfile \<Rightarrow> string \<Rightarrow> int \<Rightarrow> bool" where
  "reports_lane loads myfile runId n \<longleftrightarrow>
     (case loads (mf_f myfile) of
        None \<Rightarrow> False
      | Some c \<Rightarrow> RunId c = runId \<and> n \<in> LaneNumber ` set (ConversionResults c))"

definition duplicate_message :: "string \<Rightarrow> string \<Rightarrow> log_record" where
  "duplicate_message runId lane =
     (DEBUG, ''Duplicate runId/lane combination found! Overwriting: ''
               @ prepend_runid runId lane)"

text \<open>
  What the reshape needs of the tree: distinct keys, the entry "undetermined" in every
  lane, a file name in every other sample, and lane names without a space.
\<close>

definition lane_ok :: "lane_rec \<Rightarrow> bool" where
  "lane_ok lrec \<longleftrightarrow>
     distinct (map fst (samples lrec))
     \<and> map_of (samples lrec) ''undetermined'' \<noteq> None
     \<and> (\<forall>e \<in> set (samples lrec). fst e \<noteq> ''undetermined'' \<longrightarrow> filename (snd e) \<noteq> None)"

definition run_ok :: "run_data \<Rightarrow> bool" where
  "run_ok rd \<longleftrightarrow>
     distinct (map fst rd)
     \<and> (\<forall>e \<in> set rd. CHR '' '' \<notin> set (fst e) \<and> lane_ok (snd e))"

definition tree_ok :: "data_tree \<Rightarrow> bool" where
  "tree_ok t \<longleftrightarrow> distinct (map fst t) \<and> (\<forall>e \<in> set t. run_ok (snd e))"

subsection \<open>The reshape without its error branches\<close>

text \<open>
  The by-lane record of a lane, the two accumulations of the loop over the samples, the
  lanes and the sample entries of a tree in the order of the loops, and the three views
  as folds over them.
\<close>

definition lane_agg :: "lane_rec \<Rightarrow> agg_rec" where
  "lane_agg lrec =
     \<lparr>total_cnt = total_cnt lrec, perfectIndex = perfectIndex lrec,
      undetermined = map_option total_cnt (map_of (samples lrec) ''undetermined'')\<rparr>"

definition bs_step :: "string \<Rightarrow> string \<times> sample_rec \<Rightarrow> (string \<times> agg_rec) list \<Rightarrow> (string \<times> agg_rec) list" where
  "bs_step runId entry bysample =
     (let uniqSampleName = prepend_runid runId (fst entry);
          bysample1 = (if map_of bysample uniqSampleName = None
                       then AList.update uniqSampleName
                              \<lparr>total_cnt = 0, perfectIndex = 0, undetermined = None\<rparr> bysample
                       else bysample);
          bysample2 = AList.map_entry uniqSampleName
                        (\<lambda>a. a\<lparr>total_cnt := total_cnt a + total_cnt (snd entry)\<rparr>) bysample1
      in AList.map_entry uniqSampleName
           (\<lambda>a. a\<lparr>perfectIndex := perfectIndex a + perfectIndex (snd entry)\<rparr>) bysample2)"

definition sf_step :: "string \<Rightarrow> string \<times> sample_rec \<Rightarrow> (string \<times> string list) list \<Rightarrow> (string \<times> string list) list" where
  "sf_step runId entry srcs =
     (if fst entry \<noteq> ''undetermined''
      then (case filename (snd entry) of
              None \<Rightarrow> srcs
            | Some name \<Rightarrow>
                AList.map_entry (prepend_runid runId (fst entry)) (\<lambda>l. l @ [name])
                  (if map_of srcs (prepend_runid runId (fst entry)) = None
                   then AList.update (prepend_runid runId (fst entry)) [] srcs else srcs))
      else srcs)"

definition lanes_of :: "data_tree \<Rightarrow> ((string \<times> string) \<times> lane_rec) list" where
  "lanes_of t = concat (map (\<lambda>re. map (\<lambda>e. ((fst re, fst e), snd e)) (snd re)) t)"

definition contribs :: "data_tree \<Rightarrow> (string \<times> string \<times> sample_rec) list" where
  "contribs t = concat (map (\<lambda>x. map (\<lambda>e. (fst (fst x), e)) (samples (snd x))) (lanes_of t))"

definition bylane_of :: "data_tree \<Rightarrow> (string \<times> agg_rec) list \<Rightarrow> (string \<times> agg_rec) list" where
  "bylane_of t bl =
     fold (\<lambda>x. AList.update (prepend_runid (fst (fst x)) (snd (fst x))) (lane_agg (snd x)))
       (lanes_of t) bl"

definition bysample_of :: "data_tree \<Rightarrow> (string \<times> agg_rec) list \<Rightarrow> (string \<times> agg_rec) list" where
  "bysample_of t bs = fold (\<lambda>c. bs_step (fst c) (snd c)) (contribs t) bs"

definition sources_of :: "data_tree \<Rightarrow> (string \<times> string list) list \<Rightarrow> (string \<times> string list) list" where
  "sources_of t sf = fold (\<lambda>c. sf_step (fst c) (snd c)) (contribs t) sf"

text \<open>
  The qualified key of a sample entry, the sum of a count over the entries of a key, what
  a lane holds for a sample name (0 when it does not have it), and the sums of the totals
  in the samples mapping of a lane, over all entries and over those other than
  "undetermined".
\<close>

definition key_of :: "string \<times> string \<times> sample_rec \<Rightarrow> string" where
  "key_of c = prepend_runid (fst c) (fst (snd c))"

definition sum_for :: "(sample_rec \<Rightarrow> int) \<Rightarrow> string \<Rightarrow> (string \<times> string \<times> sample_rec) list \<Rightarrow> int" where
  "sum_for g k cs = sum_list (map (\<lambda>c. g (snd (snd c))) (filter (\<lambda>c. key_of c = k) cs))"

definition sample_count :: "(sample_rec \<Rightarrow> int) \<Rightarrow> lane_rec \<Rightarrow> string \<Rightarrow> int" where
  "sample_count g lrec s = (case map_of (samples lrec) s of None \<Rightarrow> 0 | Some v \<Rightarrow> g v)"

definition samples_total :: "lane_rec \<Rightarrow> int" where
  "samples_total lrec = sum_list (map (\<lambda>e. total_cnt (snd e)) (samples lrec))"

definition other_samples_total :: "lane_rec \<Rightarrow> int" where
  "other_samples_total lrec =
     sum_list (map (\<lambda>e. total_cnt (snd e))
                 (filter (\<lambda>e. fst e \<noteq> ''undetermined'') (samples lrec)))"

subsection \<open>The constructor\<close>

text \<open>
  \<open>stats_ok\<close>: every percentage is defined. \<open>stats_row_of\<close>: the row of the general
  statistics for one sample. \<open>filtered_module\<close>: the module after ingestion, reshape and
  the host's filter.
\<close>

definition stats_ok :: "(string \<times> agg_rec) list \<Rightarrow> bool" where
  "stats_ok bysample \<longleftrightarrow>
     (\<forall>e \<in> set bysample.
        fits_float (perfectIndex (snd e)) \<and> fits_float (total_cnt (snd e))
        \<and> total_cnt (snd e) \<noteq> 0)"

definition stats_row_of :: "string \<times> agg_rec \<Rightarrow> string \<times> stats_row" where
  "stats_row_of e =
     (fst e, \<lparr>row_total = total_cnt (snd e),
              perfectPercent = format_percent (perfectIndex (snd e)) (total_cnt (snd e))\<rparr>)"

definition filtered_module :: "env \<Rightarrow> myfile list \<Rightarrow> module" where
  "filtered_module env files =
     (let self1 = ingest (env_loads env) files new_module
      in self1\<lparr>source_files := sources_of (bcl2fastq_data self1) [],
               bcl2fastq_bylane := env_ignore_samples env (bylane_of (bcl2fastq_data self1) []),
               bcl2fastq_bysample :=
                 env_ignore_samples env (bysample_of (bcl2fastq_data self1) [])\<rparr>)"

subsection \<open>Example inputs\<close>

text \<open>
  The example of the specification; two files of one run, a file that reports a lane
  twice and a file that is not JSON; a report with a sample named "undetermined", with
  and without reads; a lane without undetermined reads; and a sample with more reads than
  a float can hold.
\<close>

definition example_report :: report where
  "example_report =
     \<lparr>RunId = ''RUN1'',
      ConversionResults =
        [\<lparr>LaneNumber = 1, Undetermined_NumberReads = 10,
          DemuxResults =
            [\<lparr>SampleName = ''S1'', NumberReads = 100,
              IndexMetrics = [\<lparr>MismatchCounts_0 = 90\<rparr>]\<rparr>]\<rparr>]\<rparr>"

definition example_file :: myfile where
  "example_file = \<lparr>mf_f = ''stats'', mf_fn = ''Stats.json'', mf_root = ''run1/Stats''\<rparr>"

definition example_loads :: json_loads where
  "example_loads s = (if s = ''stats'' then Some example_report else None)"

definition two_lane_report :: report where
  "two_lane_report =
     \<lparr>RunId = ''RUN1'',
      ConversionResults =
        [\<lparr>LaneNumber = 1, Undetermined_NumberReads = 10,
          DemuxResults =
            [\<lparr>SampleName = ''S1'', NumberReads = 100,
              IndexMetrics = [\<lparr>MismatchCounts_0 = 90\<rparr>]\<rparr>,
             \<lparr>SampleName = ''S2'', NumberReads = 50,
              IndexMetrics = [\<lparr>MismatchCounts_0 = 40\<rparr>, \<lparr>MismatchCounts_0 = 5\<rparr>]\<rparr>]\<rparr>,
         \<lparr>LaneNumber = 2, Undetermined_NumberReads = 7, DemuxResults = []\<rparr>]\<rparr>"

definition other_report :: report where
  "other_report =
     \<lparr>RunId = ''RUN1'',
      ConversionResults =
        [\<lparr>LaneNumber = 3, Undetermined_NumberReads = 4,
          DemuxResults =
            [\<lparr>SampleName = ''S1'', NumberReads = 30,
              IndexMetrics = [\<lparr>MismatchCounts_0 = 20\<rparr>]\<rparr>]\<rparr>]\<rparr>"

definition dup_report :: report where
  "dup_report =
     \<lparr>RunId = ''RUN1'',
      ConversionResults =
        [\<lparr>LaneNumber = 1, Undetermined_NumberReads = 3,
          DemuxResults =
            [\<lparr>SampleName = ''S9'', NumberReads = 8,
              IndexMetrics = [\<lparr>MismatchCounts_0 = 6\<rparr>]\<rparr>]\<rparr>,
         \<lparr>LaneNumber = 1, Undetermined_NumberReads = 2,
          DemuxResults =
            [\<lparr>SampleName = ''S1'', NumberReads = 60,
              IndexMetrics = [\<lparr>MismatchCounts_0 = 50\<rparr>]\<rparr>]\<rparr>]\<rparr>"

definition two_loads :: json_loads where
  "two_loads s = (if s = ''a'' then Some two_lane_report
                  else if s = ''b'' then Some other_report
                  else if s = ''d'' then Some dup_report else None)"

definition file_a :: myfile where
  "file_a = \<lparr>mf_f = ''a'', mf_fn = ''Stats.json'', mf_root = ''run1/a''\<rparr>"

definition file_b :: myfile where
  "file_b = \<lparr>mf_f = ''b'', mf_fn = ''Stats.json'', mf_root = ''run1/b''\<rparr>"

definition file_dup :: myfile where
  "file_dup = \<lparr>mf_f = ''d'', mf_fn = ''Stats.json'', mf_root = ''run1/d''\<rparr>"

definition file_bad :: myfile where
  "file_bad = \<lparr>mf_f = ''<html>'', mf_fn = ''Stats.json'', mf_root = ''run1/c''\<rparr>"

definition zero_shadow_report :: report where
  "zero_shadow_report =
     \<lparr>RunId = ''RUN1'',
      ConversionResults =
        [\<lparr>LaneNumber = 1, Undetermined_NumberReads = 0,
          DemuxResults =
            [\<lparr>SampleName = ''S1'', NumberReads = 100,
              IndexMetrics = [\<lparr>MismatchCounts_0 = 90\<rparr>]\<rparr>,
             \<lparr>SampleName = ''undetermined'', NumberReads = 0,
              IndexMetrics = [\<lparr>MismatchCounts_0 = 0\<rparr>]\<rparr>]\<rparr>]\<rparr>"

definition shadow_report :: report where
  "shadow_report =
     \<lparr>RunId = ''RUN1'',
      ConversionResults =
        [\<lparr>LaneNumber = 1, Undetermined_NumberReads = 10,
          DemuxResults =
            [\<lparr>SampleName = ''S1'', NumberReads = 100,
              IndexMetrics = [\<lparr>MismatchCounts_0 = 90\<rparr>]\<rparr>,
             \<lparr>SampleName = ''undetermined'', NumberReads = 25,
              IndexMetrics = [\<lparr>MismatchCounts_0 = 20\<rparr>]\<rparr>]\<rparr>]\<rparr>"

definition shadow_loads :: json_loads where
  "shadow_loads s = (if s = ''z'' then Some zero_shadow_report
                     else if s = ''s'' then Some shadow_report else None)"

definition file_zero :: myfile where
  "file_zero = \<lparr>mf_f = ''z'', mf_fn = ''Stats.json'', mf_root = ''run1/z''\<rparr>"

definition file_shadow :: myfile where
  "file_shadow = \<lparr>mf_f = ''s'', mf_fn = ''Stats.json'', mf_root = ''run1/s''\<rparr>"

definition zero_lane :: lane_rec where
  "zero_lane =
     \<lparr>total_cnt = 100, perfectIndex = 90,
      samples =
        [(''S1'', \<lparr>total_cnt = 100, perfectIndex = 90,
                   filename = Some ''run1/z/Stats.json''\<rparr>),
         (''undetermined'', \<lparr>total_cnt = 0, perfectIndex = 0, filename = None\<rparr>)]\<rparr>"

definition clean_report :: report where
  "clean_report =
     \<lparr>RunId = ''RUN1'',
      ConversionResults =
        [\<lparr>LaneNumber = 1, Undetermined_NumberReads = 0,
          DemuxResults =
            [\<lparr>SampleName = ''S1'', NumberReads = 100,
              IndexMetrics = [\<lparr>MismatchCounts_0 = 90\<rparr>]\<rparr>]\<rparr>]\<rparr>"

definition file_clean :: myfile where
  "file_clean = \<lparr>mf_f = ''c'', mf_fn = ''Stats.json'', mf_root = ''run1/c''\<rparr>"

definition example_env :: env where
  "example_env =
     \<lparr>env_loads = (\<lambda>s. if s = ''c'' then Some clean_report else example_loads s),
      env_ignore_samples = (\<lambda>data. data),
      cfg_analysis_dir = ''.'',
      cfg_read_count_prefix = ''M'',
      cfg_read_count_desc = ''millions''\<rparr>"

definition huge_report :: report where
  "huge_report =
     \<lparr>RunId = ''RUN1'',
      ConversionResults =
        [\<lparr>LaneNumber = 1, Undetermined_NumberReads = 5,
          DemuxResults =
            [\<lparr>SampleName = ''S1'', NumberReads = 10 ^ 400,
              IndexMetrics = [\<lparr>MismatchCounts_0 = 1\<rparr>]\<rparr>]\<rparr>]\<rparr>"

definition file_huge :: myfile where
  "file_huge = \<lparr>mf_f = ''h'', mf_fn = ''Stats.json'', mf_root = ''run1/h''\<rparr>"

definition huge_env :: env where
  "huge_env =
     \<lparr>env_loads = (\<lambda>s. if s = ''h'' then Some huge_report else None),
      env_ignore_samples = (\<lambda>data. data),
      cfg_analysis_dir = ''.'',
      cfg_read_count_prefix = ''M'',
      cfg_read_count_desc = ''millions''\<rparr>"

definition stats_module :: module where
  "stats_module =
     new_module\<lparr>bcl2fastq_bysample :=
       [(''RUN1 - S1'', \<lparr>total_cnt = 200, perfectIndex = 150, undetermined = None\<rparr>),
        (''RUN1 - undetermined'', \<lparr>total_cnt = 10, perfectIndex = 0, undetermined = None\<rparr>)]\<rparr>"


section \<open>Auxiliary facts\<close>

subsection \<open>Decimal numerals and qualified keys\<close>

lemma digit_val_digit_char: "d < 10 \<Longrightarrow> digit_val (digit_char d) = d"
  by (simp add: digit_val_def digit_char_def)

lemma digit_char_in: "digit_char d \<in> set ''0123456789''"
  by (simp add: digit_char_def)

lemma str_nat_digits: "set (str_nat n) \<subseteq> set ''0123456789''"
proof (induction n rule: str_nat.induct)
  case (1 n)
  show ?case
  proof (cases "n < 10")
    case True
    then show ?thesis using digit_char_in [of n] by (subst str_nat.simps) simp
  next
    case False
    with "1" digit_char_in [of "n mod 10"] show ?thesis
      by (subst str_nat.simps) simp
  qed
qed

lemma nat_of_digits_str_nat: "nat_of_digits (str_nat n) = n"
proof (induction n rule: str_nat.induct)
  case (1 n)
  show ?case
  proof (cases "n < 10")
    case True
    then show ?thesis
      by (subst str_nat.simps) (simp add: nat_of_digits_def digit_val_digit_char)
  next
    case False
    with "1" have "nat_of_digits (str_nat (n div 10)) = n div 10" by simp
    with False show ?thesis
      by (subst str_nat.simps) (simp add: nat_of_digits_def digit_val_digit_char)
  qed
qed

lemma str_nat_inj: "str_nat m = str_nat n \<Longrightarrow> m = n"
  by (metis nat_of_digits_str_nat)

lemma str_nat_no_minus: "CHR ''-'' \<notin> set (str_nat n)"
  using str_nat_digits [of n] by auto

lemma str_nat_nonempty: "str_nat n \<noteq> []"
  by (subst str_nat.simps) simp

lemma str_int_inj: "str_int i = str_int j \<Longrightarrow> i = j"
proof -
  assume eq: "str_int i = str_int j"
  have neg: "\<And>a b. a < 0 \<Longrightarrow> \<not> b < 0 \<Longrightarrow> str_int a \<noteq> str_int b"
  proof
    fix a b :: int
    assume "a < 0" "\<not> b < 0" "str_int a = str_int b"
    then have "CHR ''-'' # str_nat (nat (- a)) = str_nat (nat b)"
      by (simp add: str_int_def)
    then have "CHR ''-'' \<in> set (str_nat (nat b))"
      by (metis list.set_intros(1))
    then show False using str_nat_no_minus by blast
  qed
  show "i = j"
  proof (cases "i < 0")
    case True
    show ?thesis
    proof (cases "j < 0")
      case True
      with \<open>i < 0\<close> eq have "nat (- i) = nat (- j)"
        by (simp add: str_int_def str_nat_inj)
      with True \<open>i < 0\<close> show ?thesis by simp
    next
      case False
      with True neg eq show ?thesis by blast
    qed
  next
    case False
    show ?thesis
    proof (cases "j < 0")
      case True
      with False neg [of j i] eq show ?thesis by simp
    next
      case jn: False
      with False eq have "nat i = nat j"
        by (simp add: str_int_def str_nat_inj)
      with False jn show ?thesis by simp
    qed
  qed
qed

lemma lane_name_eq_iff: "lane_name a = lane_name b \<longleftrightarrow> LaneNumber a = LaneNumber b"
  by (auto simp: lane_name_def dest: str_int_inj)

lemma str_int_no_space: "CHR '' '' \<notin> set (str_int i)"
  using str_nat_digits [of "nat i"] str_nat_digits [of "nat (- i)"]
  by (auto simp: str_int_def)

lemma lane_name_no_space: "CHR '' '' \<notin> set (lane_name cr)"
  using str_int_no_space by (simp add: lane_name_def)

lemma prepend_runid_same: "prepend_runid r a = prepend_runid r b \<longleftrightarrow> a = b"
  by (simp add: prepend_runid_def)

lemma prepend_runid_inj:
  assumes "CHR '' '' \<notin> set a" "CHR '' '' \<notin> set b"
    and "prepend_runid r a = prepend_runid q b"
  shows "r = q \<and> a = b"
proof -
  have tw: "\<And>x p. CHR '' '' \<notin> set x \<Longrightarrow>
      takeWhile (\<lambda>c. c \<noteq> CHR '' '') (rev (prepend_runid p x)) = rev x"
    by (auto simp add: prepend_runid_def takeWhile_tail)
  from assms(3) have "rev (prepend_runid r a) = rev (prepend_runid q b)" by simp
  then have "rev a = rev b" using tw [OF assms(1), of r] tw [OF assms(2), of q] by simp
  then have "a = b" by simp
  with assms(3) show ?thesis by (simp add: prepend_runid_def)
qed


lemma str_int_1: "str_int 1 = ''1''"
  by (simp add: str_int_def str_nat.simps digit_char_def)

lemmas ingest_unfold = ingest_def parse_file_as_json_def conversion_step_def lane_record_def
  demux_step_def index_step_def lane_name_def new_module_def

lemmas split_unfold = split_data_by_lane_and_sample_def split_views_def run_step_def
  lane_step_def sample_step_def prepend_runid_def

subsection \<open>The lane record in closed form\<close>

lemma map_entry_update: "AList.map_entry k g (AList.update k v al) = AList.update k (g v) al"
  by (induction al) auto

lemma set_update_subset: "set (AList.update k v al) \<subseteq> insert (k, v) (set al)"
  by (induction al) auto

lemma fold_index_step:
  "samples lane = AList.update s v al \<Longrightarrow>
   fold (index_step s) ims lane =
     lane\<lparr>perfectIndex := perfectIndex lane + sum_list (map MismatchCounts_0 ims),
          samples := AList.update s
            (v\<lparr>perfectIndex := perfectIndex v + sum_list (map MismatchCounts_0 ims)\<rparr>) al\<rparr>"
proof (induction ims arbitrary: lane v)
  case Nil
  then show ?case by simp
next
  case (Cons im ims)
  have "samples (index_step s im lane) =
          AList.update s (v\<lparr>perfectIndex := perfectIndex v + MismatchCounts_0 im\<rparr>) al"
    using Cons.prems by (simp add: index_step_def map_entry_update)
  from Cons.IH [OF this] show ?case
    by (simp add: index_step_def add.assoc)
qed

lemma demux_step_eq:
  "demux_step myfile d lane =
     lane\<lparr>total_cnt := total_cnt lane + NumberReads d,
          perfectIndex := perfectIndex lane + sum_list (map MismatchCounts_0 (IndexMetrics d)),
          samples := set_sample myfile d (samples lane)\<rparr>"
proof -
  let ?z = "\<lparr>total_cnt = 0, perfectIndex = 0,
             filename = Some (path_join (mf_root myfile) (mf_fn myfile))\<rparr>"
  let ?lane3 = "lane\<lparr>total_cnt := total_cnt lane + NumberReads d,
      samples := AList.update (SampleName d) (?z\<lparr>total_cnt := NumberReads d\<rparr>) (samples lane)\<rparr>"
  have "demux_step myfile d lane = fold (index_step (SampleName d)) (IndexMetrics d) ?lane3"
    by (simp add: demux_step_def Let_def map_entry_update)
  also have "\<dots> = ?lane3\<lparr>perfectIndex := perfectIndex ?lane3
                        + sum_list (map MismatchCounts_0 (IndexMetrics d)),
                      samples := AList.update (SampleName d)
                        ((?z\<lparr>total_cnt := NumberReads d\<rparr>)\<lparr>perfectIndex :=
                            perfectIndex (?z\<lparr>total_cnt := NumberReads d\<rparr>)
                            + sum_list (map MismatchCounts_0 (IndexMetrics d))\<rparr>)
                        (samples lane)\<rparr>"
    by (rule fold_index_step) simp
  finally show ?thesis by (simp add: set_sample_def sample_of_def)
qed

lemma fold_demux_step:
  "fold (demux_step myfile) ds lane =
     lane\<lparr>total_cnt := total_cnt lane + sum_list (map NumberReads ds),
          perfectIndex := perfectIndex lane
            + sum_list (map (\<lambda>d. sum_list (map MismatchCounts_0 (IndexMetrics d))) ds),
          samples := fold (set_sample myfile) ds (samples lane)\<rparr>"
  by (induction ds arbitrary: lane) (simp_all add: demux_step_eq add.assoc)

lemma lane_record_eq:
  "lane_record myfile cr =
     \<lparr>total_cnt = sum_list (map NumberReads (DemuxResults cr)),
      perfectIndex =
        sum_list (map (\<lambda>d. sum_list (map MismatchCounts_0 (IndexMetrics d))) (DemuxResults cr)),
      samples = AList.update ''undetermined'' (undetermined_of cr)
                  (fold (set_sample myfile) (DemuxResults cr) [])\<rparr>"
  by (simp add: lane_record_def Let_def fold_demux_step undetermined_of_def)

subsection \<open>Ingestion: lookups and the invariant of the tree\<close>

lemma map_of_fold_update:
  "map_of (fold (\<lambda>x. AList.update (k x) (g x)) xs al) =
     map_of al ++ map_of (rev (map (\<lambda>x. (k x, g x)) xs))"
proof (induction xs arbitrary: al)
  case Nil
  then show ?case by simp
next
  case (Cons x xs)
  have "map_of (fold (\<lambda>x. AList.update (k x) (g x)) (x # xs) al) =
          map_of (AList.update (k x) (g x) al) ++ map_of (rev (map (\<lambda>x. (k x, g x)) xs))"
    using Cons.IH [of "AList.update (k x) (g x) al"] by simp
  also have "\<dots> = (map_of al)(k x \<mapsto> g x) ++ map_of (rev (map (\<lambda>x. (k x, g x)) xs))"
    by (simp only: update_conv')
  also have "\<dots> = map_of al ++ ([k x \<mapsto> g x] ++ map_of (rev (map (\<lambda>x. (k x, g x)) xs)))"
    by (auto simp: fun_eq_iff map_add_def split: option.splits)
  finally show ?case by simp
qed

lemma distinct_fold_update:
  "distinct (map fst al) \<Longrightarrow> distinct (map fst (fold (\<lambda>x. AList.update (k x) (g x)) xs al))"
  by (induction xs arbitrary: al) (simp_all add: distinct_update)

lemma set_fold_update:
  "set (fold (\<lambda>x. AList.update (k x) (g x)) xs al) \<subseteq> set al \<union> (\<lambda>x. (k x, g x)) ` set xs"
proof (induction xs arbitrary: al)
  case Nil
  then show ?case by simp
next
  case (Cons x xs)
  have "set (fold (\<lambda>x. AList.update (k x) (g x)) xs (AList.update (k x) (g x) al))
          \<subseteq> set (AList.update (k x) (g x) al) \<union> (\<lambda>x. (k x, g x)) ` set xs"
    by (rule Cons.IH)
  with set_update_subset [of "k x" "g x" al] show ?case by auto
qed

lemma fold_set_sample:
  "fold (set_sample myfile) ds al =
     fold (\<lambda>d. AList.update (SampleName d) (sample_of myfile d)) ds al"
  by (simp add: set_sample_def [abs_def])

lemma fold_set_lane:
  "fold (set_lane myfile) crs rd =
     fold (\<lambda>cr. AList.update (lane_name cr) (lane_record myfile cr)) crs rd"
  by (simp add: set_lane_def [abs_def])

lemma lane_record_ok: "lane_ok (lane_record myfile cr)"
proof -
  let ?S = "fold (set_sample myfile) (DemuxResults cr) []"
  have d: "distinct (map fst ?S)"
    by (simp add: fold_set_sample distinct_fold_update)
  have f: "\<forall>e \<in> set ?S. filename (snd e) \<noteq> None"
    using set_fold_update [of SampleName "sample_of myfile" "DemuxResults cr" "[]"]
    by (auto simp: fold_set_sample sample_of_def)
  have "\<forall>e \<in> set (AList.update ''undetermined'' (undetermined_of cr) ?S).
          fst e \<noteq> ''undetermined'' \<longrightarrow> filename (snd e) \<noteq> None"
    using f set_update_subset [of "''undetermined''" "undetermined_of cr" ?S] by auto
  with d show ?thesis
    by (simp add: lane_ok_def lane_record_eq distinct_update update_conv')
qed

lemma fst_fold_conversion_step:
  "fst (fold (conversion_step runId myfile) crs st) = fold (set_lane myfile) crs (fst st)"
  by (induction crs arbitrary: st) (simp_all add: conversion_step_def Let_def set_lane_def)

lemma snd_fold_conversion_step_mono:
  "set (snd st) \<subseteq> set (snd (fold (conversion_step runId myfile) crs st))"
proof (induction crs arbitrary: st)
  case Nil
  then show ?case by simp
next
  case (Cons cr crs)
  have "set (snd st) \<subseteq> set (snd (conversion_step runId myfile cr st))"
    by (auto simp: conversion_step_def Let_def)
  with Cons.IH [of "conversion_step runId myfile cr st"] show ?case by auto
qed

lemma parse_file_data:
  assumes "loads (mf_f myfile) = Some c"
  shows "bcl2fastq_data (parse_file_as_json loads self myfile) =
           AList.update (RunId c)
             (fold (set_lane myfile) (ConversionResults c)
                (case map_of (bcl2fastq_data self) (RunId c) of Some rd \<Rightarrow> rd | None \<Rightarrow> []))
             (bcl2fastq_data self)"
  using assms
  by (simp add: parse_file_as_json_def Let_def fst_fold_conversion_step update_conv'
      split: option.splits)

lemma parse_file_data_none:
  assumes "loads (mf_f myfile) = None"
  shows "bcl2fastq_data (parse_file_as_json loads self myfile) = bcl2fastq_data self"
  using assms by (simp add: parse_file_as_json_def)

lemma map_of_pair_keys:
  "map_of (map (\<lambda>x. ((r, k x), g x)) xs) (q, l) =
     (if q = r then map_of (map (\<lambda>x. (k x, g x)) xs) l else None)"
  by (induction xs) auto

lemma map_of_rev_pair_keys:
  "map_of (rev (map (\<lambda>x. ((r, k x), g x)) xs)) (q, l) =
     (if q = r then map_of (rev (map (\<lambda>x. (k x, g x)) xs)) l else None)"
  using map_of_pair_keys [of r k g "rev xs" q l] by (simp add: rev_map)

lemma flat_parse_file:
  "flat (bcl2fastq_data (parse_file_as_json loads self myfile)) =
     flat (bcl2fastq_data self) ++ map_of (rev (file_entries loads myfile))"
proof (cases "loads (mf_f myfile)")
  case None
  then show ?thesis by (simp add: parse_file_data_none file_entries_def)
next
  case (Some c)
  show ?thesis
  proof (rule ext)
    fix key :: "string \<times> string"
    obtain q l where key: "key = (q, l)" by (cases key)
    show "flat (bcl2fastq_data (parse_file_as_json loads self myfile)) key =
            (flat (bcl2fastq_data self) ++ map_of (rev (file_entries loads myfile))) key"
      using Some
      by (simp add: key flat_def parse_file_data update_conv' file_entries_def
          fold_set_lane map_of_fold_update map_of_rev_pair_keys map_add_def
          split: option.splits)
  qed
qed

lemma flat_ingest:
  "flat (bcl2fastq_data (ingest loads files self)) =
     flat (bcl2fastq_data self) ++ map_of (rev (all_entries loads files))"
proof (induction files arbitrary: self)
  case Nil
  then show ?case by (simp add: ingest_def all_entries_def)
next
  case (Cons myfile files)
  have "flat (bcl2fastq_data (ingest loads (myfile # files) self)) =
          flat (bcl2fastq_data (parse_file_as_json loads self myfile))
            ++ map_of (rev (all_entries loads files))"
    using Cons.IH [of "parse_file_as_json loads self myfile"] by (simp add: ingest_def)
  then show ?case
    by (simp add: flat_parse_file all_entries_def)
qed

lemma flat_new_module: "flat (bcl2fastq_data new_module) = Map.empty"
  by (simp add: flat_def new_module_def fun_eq_iff)

lemma run_ok_fold_set_lane:
  assumes "run_ok rd"
  shows "run_ok (fold (set_lane myfile) crs rd)"
proof -
  let ?rd = "fold (\<lambda>cr. AList.update (lane_name cr) (lane_record myfile cr)) crs rd"
  have "distinct (map fst ?rd)"
    using assms by (simp add: run_ok_def distinct_fold_update)
  moreover have "\<forall>e \<in> set ?rd. CHR '' '' \<notin> set (fst e) \<and> lane_ok (snd e)"
  proof
    fix e assume "e \<in> set ?rd"
    with set_fold_update [of lane_name "lane_record myfile" crs rd]
    have "e \<in> set rd \<or> (\<exists>cr. e = (lane_name cr, lane_record myfile cr))" by auto
    then show "CHR '' '' \<notin> set (fst e) \<and> lane_ok (snd e)"
      using assms lane_name_no_space lane_record_ok by (auto simp: run_ok_def)
  qed
  ultimately show ?thesis by (simp add: run_ok_def fold_set_lane)
qed

lemma tree_ok_parse_file:
  assumes "tree_ok (bcl2fastq_data self)"
  shows "tree_ok (bcl2fastq_data (parse_file_as_json loads self myfile))"
proof (cases "loads (mf_f myfile)")
  case None
  with assms show ?thesis by (simp add: parse_file_data_none)
next
  case (Some c)
  let ?old = "case map_of (bcl2fastq_data self) (RunId c) of Some rd \<Rightarrow> rd | None \<Rightarrow> []"
  let ?rd = "fold (set_lane myfile) (ConversionResults c) ?old"
  have "run_ok ?old"
  proof (cases "map_of (bcl2fastq_data self) (RunId c)")
    case None
    then show ?thesis by (simp add: run_ok_def)
  next
    case (Some rd)
    then have "(RunId c, rd) \<in> set (bcl2fastq_data self)" by (rule map_of_SomeD)
    with assms Some show ?thesis by (auto simp: tree_ok_def)
  qed
  then have rd: "run_ok ?rd" by (rule run_ok_fold_set_lane)
  have "\<forall>e \<in> set (AList.update (RunId c) ?rd (bcl2fastq_data self)). run_ok (snd e)"
    using rd assms set_update_subset [of "RunId c" ?rd "bcl2fastq_data self"]
    by (auto simp: tree_ok_def)
  with assms Some show ?thesis
    by (simp add: tree_ok_def parse_file_data distinct_update)
qed

lemma tree_ok_ingest:
  "tree_ok (bcl2fastq_data self) \<Longrightarrow> tree_ok (bcl2fastq_data (ingest loads files self))"
  by (induction files arbitrary: self) (simp_all add: ingest_def tree_ok_parse_file)

lemma tree_ok_new_module: "tree_ok (bcl2fastq_data new_module)"
  by (simp add: tree_ok_def new_module_def)

subsection \<open>The reshape returns on an ingested tree\<close>

lemma sample_step_ok:
  assumes "fst e \<noteq> ''undetermined'' \<longrightarrow> filename (snd e) \<noteq> None"
  shows "sample_step r e (bl, bs, sf) = Inr (bl, bs_step r e bs, sf_step r e sf)"
  using assms by (auto simp: sample_step_def bs_step_def sf_step_def Let_def)

lemma foldM_sample_step:
  assumes "\<forall>e \<in> set ss. fst e \<noteq> ''undetermined'' \<longrightarrow> filename (snd e) \<noteq> None"
  shows "foldM (sample_step r) ss (bl, bs, sf) =
           Inr (bl, fold (bs_step r) ss bs, fold (sf_step r) ss sf)"
  using assms
proof (induction ss arbitrary: bs sf)
  case Nil
  then show ?case by simp
next
  case (Cons e ss)
  then have "sample_step r e (bl, bs, sf) = Inr (bl, bs_step r e bs, sf_step r e sf)"
    by (simp add: sample_step_ok)
  with Cons show ?case by simp
qed

lemma lane_step_ok:
  assumes "lane_ok (snd e)"
  shows "lane_step r e (bl, bs, sf) =
           Inr (AList.update (prepend_runid r (fst e)) (lane_agg (snd e)) bl,
                fold (bs_step r) (samples (snd e)) bs,
                fold (sf_step r) (samples (snd e)) sf)"
proof -
  from assms obtain u where u: "map_of (samples (snd e)) ''undetermined'' = Some u"
    by (auto simp: lane_ok_def)
  from assms have "\<forall>x \<in> set (samples (snd e)).
      fst x \<noteq> ''undetermined'' \<longrightarrow> filename (snd x) \<noteq> None"
    by (simp add: lane_ok_def)
  then show ?thesis
    using u by (simp add: lane_step_def Let_def foldM_sample_step lane_agg_def)
qed

lemma foldM_lane_step:
  assumes "\<forall>e \<in> set rd. lane_ok (snd e)"
  shows "foldM (lane_step r) rd (bl, bs, sf) =
           Inr (fold (\<lambda>e. AList.update (prepend_runid r (fst e)) (lane_agg (snd e))) rd bl,
                fold (\<lambda>e. fold (bs_step r) (samples (snd e))) rd bs,
                fold (\<lambda>e. fold (sf_step r) (samples (snd e))) rd sf)"
  using assms
proof (induction rd arbitrary: bl bs sf)
  case Nil
  then show ?case by simp
next
  case (Cons e rd)
  then have "lane_ok (snd e)" by simp
  from lane_step_ok [OF this, of r bl bs sf] Cons show ?case by simp
qed

lemma foldM_run_step:
  assumes "\<forall>re \<in> set t. \<forall>e \<in> set (snd re). lane_ok (snd e)"
  shows "foldM run_step t (bl, bs, sf) =
           Inr (fold (\<lambda>re. fold (\<lambda>e. AList.update (prepend_runid (fst re) (fst e))
                                       (lane_agg (snd e))) (snd re)) t bl,
                fold (\<lambda>re. fold (\<lambda>e. fold (bs_step (fst re)) (samples (snd e))) (snd re)) t bs,
                fold (\<lambda>re. fold (\<lambda>e. fold (sf_step (fst re)) (samples (snd e))) (snd re)) t sf)"
  using assms
proof (induction t arbitrary: bl bs sf)
  case Nil
  then show ?case by simp
next
  case (Cons re t)
  then have "\<forall>e \<in> set (snd re). lane_ok (snd e)" by simp
  from foldM_lane_step [OF this, of "fst re" bl bs sf] Cons show ?case
    by (simp add: run_step_def)
qed

lemma fold_lanes_of:
  "fold (\<lambda>re. fold (\<lambda>e. g (fst re) e) (snd re)) t a =
     fold (\<lambda>x. g (fst (fst x)) (snd (fst x), snd x)) (lanes_of t) a"
  by (induction t arbitrary: a) (simp_all add: lanes_of_def fold_map comp_def)

lemma fold_concat_samples:
  "fold (\<lambda>x. fold (g (fst (fst x))) (samples (snd x))) xs a =
     fold (\<lambda>c. g (fst c) (snd c))
       (concat (map (\<lambda>x. map (\<lambda>e. (fst (fst x), e)) (samples (snd x))) xs)) a"
  by (induction xs arbitrary: a) (simp_all add: fold_map comp_def)

lemma fold_contribs:
  "fold (\<lambda>x. fold (g (fst (fst x))) (samples (snd x))) (lanes_of t) a =
     fold (\<lambda>c. g (fst c) (snd c)) (contribs t) a"
  by (simp add: contribs_def fold_concat_samples)

lemma split_views_ok:
  assumes "tree_ok t"
  shows "split_views t (bl, bs, sf) = Inr (bylane_of t bl, bysample_of t bs, sources_of t sf)"
proof -
  from assms have ok: "\<forall>re \<in> set t. \<forall>e \<in> set (snd re). lane_ok (snd e)"
    by (simp add: tree_ok_def run_ok_def)
  have 1: "fold (\<lambda>re. fold (\<lambda>e. AList.update (prepend_runid (fst re) (fst e))
                                       (lane_agg (snd e))) (snd re)) t bl = bylane_of t bl"
    using fold_lanes_of [of "\<lambda>r e. AList.update (prepend_runid r (fst e)) (lane_agg (snd e))" t bl]
    by (simp add: bylane_of_def)
  have 2: "fold (\<lambda>re. fold (\<lambda>e. fold (bs_step (fst re)) (samples (snd e))) (snd re)) t bs
             = bysample_of t bs"
    using fold_lanes_of [of "\<lambda>r e. fold (bs_step r) (samples (snd e))" t bs]
          fold_contribs [of bs_step t bs]
    by (simp add: bysample_of_def)
  have 3: "fold (\<lambda>re. fold (\<lambda>e. fold (sf_step (fst re)) (samples (snd e))) (snd re)) t sf
             = sources_of t sf"
    using fold_lanes_of [of "\<lambda>r e. fold (sf_step r) (samples (snd e))" t sf]
          fold_contribs [of sf_step t sf]
    by (simp add: sources_of_def)
  show ?thesis
    unfolding split_views_def foldM_run_step [OF ok] 1 2 3 ..
qed

subsection \<open>The by-lane view\<close>

lemma map_of_unique_value:
  "(k, v) \<in> set xs \<Longrightarrow> \<forall>e \<in> set xs. fst e = k \<longrightarrow> snd e = v \<Longrightarrow> map_of xs k = Some v"
  by (induction xs) auto

lemma lanes_of_iff:
  assumes "tree_ok t"
  shows "x \<in> set (lanes_of t) \<longleftrightarrow> flat t (fst x) = Some (snd x)"
proof -
  obtain r l lrec where x: "x = ((r, l), lrec)" by (cases x) auto
  from assms have dt: "distinct (map fst t)" by (simp add: tree_ok_def)
  have "x \<in> set (lanes_of t) \<longleftrightarrow> (\<exists>rd. (r, rd) \<in> set t \<and> (l, lrec) \<in> set rd)"
    by (force simp: lanes_of_def x)
  also have "\<dots> \<longleftrightarrow> (\<exists>rd. map_of t r = Some rd \<and> map_of rd l = Some lrec)"
  proof -
    have "\<And>rd. (r, rd) \<in> set t \<Longrightarrow> distinct (map fst rd)"
      using assms by (auto simp: tree_ok_def run_ok_def)
    then show ?thesis using dt by (metis map_of_eq_Some_iff)
  qed
  also have "\<dots> \<longleftrightarrow> flat t (fst x) = Some (snd x)"
    by (auto simp: flat_def x split: option.splits)
  finally show ?thesis .
qed

lemma lanes_of_mem:
  "x \<in> set (lanes_of t) \<longleftrightarrow>
     (\<exists>rd. (fst (fst x), rd) \<in> set t \<and> (snd (fst x), snd x) \<in> set rd)"
  by (force simp: lanes_of_def)

lemma lanes_of_props:
  assumes "tree_ok t" "x \<in> set (lanes_of t)"
  shows "CHR '' '' \<notin> set (snd (fst x)) \<and> lane_ok (snd x)"
proof -
  from assms(2) obtain rd where rd: "(fst (fst x), rd) \<in> set t"
      and l: "(snd (fst x), snd x) \<in> set rd"
    by (auto simp: lanes_of_mem)
  from assms(1) rd have "run_ok (snd (fst (fst x), rd))"
    unfolding tree_ok_def by blast
  then have "\<forall>e \<in> set rd. CHR '' '' \<notin> set (fst e) \<and> lane_ok (snd e)"
    by (simp add: run_ok_def)
  from bspec [OF this l] show ?thesis by simp
qed

lemma lanes_of_no_space:
  assumes "tree_ok t" "x \<in> set (lanes_of t)"
  shows "CHR '' '' \<notin> set (snd (fst x))"
  using lanes_of_props [OF assms] by simp

lemma lanes_of_lane_ok:
  assumes "tree_ok t" "x \<in> set (lanes_of t)"
  shows "lane_ok (snd x)"
  using lanes_of_props [OF assms] by simp

lemma bylane_lookup:
  assumes "tree_ok t" "flat t (r, l) = Some lrec"
  shows "map_of (bylane_of t []) (prepend_runid r l) = Some (lane_agg lrec)"
proof -
  let ?h = "\<lambda>x. (prepend_runid (fst (fst x)) (snd (fst x)), lane_agg (snd x))"
  let ?xs = "rev (map ?h (lanes_of t))"
  from assms have mem: "((r, l), lrec) \<in> set (lanes_of t)"
    by (simp add: lanes_of_iff)
  then have 1: "(prepend_runid r l, lane_agg lrec) \<in> set ?xs" by force
  have nl: "CHR '' '' \<notin> set l"
    using lanes_of_no_space [OF assms(1) mem] by simp
  have 2: "\<forall>e \<in> set ?xs. fst e = prepend_runid r l \<longrightarrow> snd e = lane_agg lrec"
  proof (intro ballI impI)
    fix e assume "e \<in> set ?xs" and k: "fst e = prepend_runid r l"
    then obtain x where x: "x \<in> set (lanes_of t)" and e: "e = ?h x" by auto
    from lanes_of_no_space [OF assms(1) x] nl k e
    have "fst (fst x) = r \<and> snd (fst x) = l"
      using prepend_runid_inj [of "snd (fst x)" l "fst (fst x)" r] by simp
    then have "fst x = (r, l)" by (simp add: prod_eq_iff)
    with x assms have "snd x = lrec" by (simp add: lanes_of_iff)
    with e show "snd e = lane_agg lrec" by simp
  qed
  have "map_of ?xs (prepend_runid r l) = Some (lane_agg lrec)"
    using 1 2 by (rule map_of_unique_value)
  then show ?thesis
    by (simp add: bylane_of_def map_of_fold_update)
qed

lemma lane_agg_lane_record:
  "lane_agg (lane_record myfile cr) =
     \<lparr>total_cnt = sum_list (map NumberReads (DemuxResults cr)),
      perfectIndex =
        sum_list (map (\<lambda>d. sum_list (map MismatchCounts_0 (IndexMetrics d))) (DemuxResults cr)),
      undetermined = Some (Undetermined_NumberReads cr)\<rparr>"
  by (simp add: lane_agg_def lane_record_eq update_conv' undetermined_of_def)

lemma ingest_views:
  "bcl2fastq_bylane (ingest loads files self) = bcl2fastq_bylane self
   \<and> bcl2fastq_bysample (ingest loads files self) = bcl2fastq_bysample self
   \<and> source_files (ingest loads files self) = source_files self"
proof (induction files arbitrary: self)
  case Nil
  then show ?case by (simp add: ingest_def)
next
  case (Cons myfile files)
  have "bcl2fastq_bylane (parse_file_as_json loads self myfile) = bcl2fastq_bylane self
        \<and> bcl2fastq_bysample (parse_file_as_json loads self myfile) = bcl2fastq_bysample self
        \<and> source_files (parse_file_as_json loads self myfile) = source_files self"
    by (simp add: parse_file_as_json_def Let_def split: option.splits)
  with Cons.IH [of "parse_file_as_json loads self myfile"] show ?case
    by (simp add: ingest_def)
qed

lemma split_ingested:
  "split_data_by_lane_and_sample (ingest loads files new_module) =
     Inr ((ingest loads files new_module)
            \<lparr>bcl2fastq_bylane := bylane_of (bcl2fastq_data (ingest loads files new_module)) [],
             bcl2fastq_bysample := bysample_of (bcl2fastq_data (ingest loads files new_module)) [],
             source_files := sources_of (bcl2fastq_data (ingest loads files new_module)) []\<rparr>)"
proof -
  have ok: "tree_ok (bcl2fastq_data (ingest loads files new_module))"
    by (simp add: tree_ok_ingest tree_ok_new_module)
  have "bcl2fastq_bylane (ingest loads files new_module) = []"
       "bcl2fastq_bysample (ingest loads files new_module) = []"
       "source_files (ingest loads files new_module) = []"
    by (simp_all add: ingest_views) (simp_all add: new_module_def)
  then show ?thesis
    by (simp add: split_data_by_lane_and_sample_def split_views_ok [OF ok])
qed

lemma map_of_rev_last:
  assumes "es = A @ (k, v) # B" "k \<notin> fst ` set B"
  shows "map_of (rev es) k = Some v"
proof -
  from assms(2) have "map_of (rev B) k = None"
    by (simp add: map_of_eq_None_iff)
  with assms(1) show ?thesis by (simp add: map_add_def)
qed

lemma all_entries_append:
  "all_entries loads (xs @ ys) = all_entries loads xs @ all_entries loads ys"
  by (simp add: all_entries_def)

lemma all_entries_Cons:
  "all_entries loads (x # xs) = file_entries loads x @ all_entries loads xs"
  by (simp add: all_entries_def)

lemma all_entries_keys:
  "(r, l) \<in> fst ` set (all_entries loads files) \<longleftrightarrow>
     (\<exists>myfile \<in> set files. \<exists>c. loads (mf_f myfile) = Some c \<and> RunId c = r
        \<and> l \<in> lane_name ` set (ConversionResults c))"
  by (force simp: all_entries_def file_entries_def split: option.splits)

lemma lane_name_image:
  "lane_name cr \<in> lane_name ` set crs \<longleftrightarrow> LaneNumber cr \<in> LaneNumber ` set crs"
  by (auto simp: lane_name_eq_iff image_iff)

lemma last_entry:
  assumes "files = before @ myfile # after"
    and "loads (mf_f myfile) = Some c"
    and "ConversionResults c = crs1 @ cr # crs2"
    and "LaneNumber cr \<notin> LaneNumber ` set crs2"
    and "\<forall>later \<in> set after. \<not> reports_lane loads later (RunId c) (LaneNumber cr)"
  shows "map_of (rev (all_entries loads files)) (RunId c, lane_name cr)
           = Some (lane_record myfile cr)"
proof -
  let ?e = "\<lambda>x. ((RunId c, lane_name x), lane_record myfile x)"
  let ?A = "all_entries loads before @ map ?e crs1"
  let ?B = "map ?e crs2 @ all_entries loads after"
  have es: "all_entries loads files = ?A @ ((RunId c, lane_name cr), lane_record myfile cr) # ?B"
    using assms(1,2,3) by (simp add: all_entries_append all_entries_Cons file_entries_def)
  have "(RunId c, lane_name cr) \<notin> fst ` set (map ?e crs2)"
    using assms(4) by (auto simp: lane_name_eq_iff image_iff)
  moreover have "(RunId c, lane_name cr) \<notin> fst ` set (all_entries loads after)"
  proof
    assume "(RunId c, lane_name cr) \<in> fst ` set (all_entries loads after)"
    then obtain later c' where l: "later \<in> set after" "loads (mf_f later) = Some c'"
        "RunId c' = RunId c" "lane_name cr \<in> lane_name ` set (ConversionResults c')"
      by (auto simp: all_entries_keys)
    then have "reports_lane loads later (RunId c) (LaneNumber cr)"
      by (simp add: reports_lane_def lane_name_image)
    with assms(5) l(1) show False by blast
  qed
  ultimately have "(RunId c, lane_name cr) \<notin> fst ` set ?B" by auto
  with es show ?thesis by (rule map_of_rev_last)
qed

lemma flat_ingest_new:
  "flat (bcl2fastq_data (ingest loads files new_module)) = map_of (rev (all_entries loads files))"
  by (simp add: flat_ingest flat_new_module)

lemma str_int_small:
  "str_int 1 = ''1''" "str_int 2 = ''2''" "str_int 3 = ''3''"
  by (simp_all add: str_int_def str_nat.simps digit_char_def)

lemma all_entries_values:
  "(k, lrec) \<in> set (all_entries loads files) \<Longrightarrow> \<exists>myfile cr. lrec = lane_record myfile cr"
  by (auto simp: all_entries_def file_entries_def split: option.splits)

lemma ingested_lane_is_record:
  assumes "map_of (bcl2fastq_data (ingest loads files new_module)) r = Some rd"
    and "map_of rd l = Some lrec"
  shows "\<exists>myfile cr. lrec = lane_record myfile cr"
proof -
  from assms have "flat (bcl2fastq_data (ingest loads files new_module)) (r, l) = Some lrec"
    by (simp add: flat_def)
  then have "map_of (rev (all_entries loads files)) (r, l) = Some lrec"
    by (simp add: flat_ingest_new)
  then have "((r, l), lrec) \<in> set (all_entries loads files)"
    using map_of_SomeD by fastforce
  then show ?thesis by (rule all_entries_values)
qed

lemma samples_undetermined:
  "map_of (samples (lane_record myfile cr)) ''undetermined'' =
     Some \<lparr>total_cnt = Undetermined_NumberReads cr, perfectIndex = 0, filename = None\<rparr>"
  by (simp add: lane_record_eq update_conv' undetermined_of_def)

lemma bylane_of_last_entry:
  assumes "files = before @ myfile # after"
    and "loads (mf_f myfile) = Some c"
    and "ConversionResults c = crs1 @ cr # crs2"
    and "LaneNumber cr \<notin> LaneNumber ` set crs2"
    and "\<forall>later \<in> set after. \<not> reports_lane loads later (RunId c) (LaneNumber cr)"
  shows "map_of (bylane_of (bcl2fastq_data (ingest loads files new_module)) [])
           (prepend_runid (RunId c) (lane_name cr)) = Some (lane_agg (lane_record myfile cr))"
proof -
  let ?t = "bcl2fastq_data (ingest loads files new_module)"
  have ok: "tree_ok ?t" by (simp add: tree_ok_ingest tree_ok_new_module)
  have "flat ?t (RunId c, lane_name cr) = Some (lane_record myfile cr)"
    unfolding flat_ingest_new using assms by (rule last_entry)
  with ok show ?thesis by (rule bylane_lookup)
qed

lemma ingest_a_b:
  "bcl2fastq_data (ingest two_loads [file_a, file_b] new_module) =
     [(''RUN1'',
       [(''L1'', lane_record file_a (ConversionResults two_lane_report ! 0)),
        (''L2'', lane_record file_a (ConversionResults two_lane_report ! 1)),
        (''L3'', lane_record file_b (ConversionResults other_report ! 0))])]"
  by (simp add: ingest_def parse_file_as_json_def conversion_step_def lane_name_def
      new_module_def two_loads_def file_a_def file_b_def two_lane_report_def other_report_def
      str_int_small Let_def)

subsection \<open>Files that are not JSON\<close>

lemma parse_file_forgets_log:
  "(parse_file_as_json loads self myfile)\<lparr>logged := []\<rparr> =
     (parse_file_as_json loads (self\<lparr>logged := []\<rparr>) myfile)\<lparr>logged := []\<rparr>"
  by (simp add: parse_file_as_json_def Let_def fst_fold_conversion_step split: option.splits)

lemma ingest_forgets_log:
  "(ingest loads files self)\<lparr>logged := []\<rparr> =
     (ingest loads files (self\<lparr>logged := []\<rparr>))\<lparr>logged := []\<rparr>"
proof (induction files arbitrary: self)
  case Nil
  then show ?case by (simp add: ingest_def)
next
  case (Cons myfile files)
  have "(ingest loads (myfile # files) self)\<lparr>logged := []\<rparr> =
          (ingest loads files ((parse_file_as_json loads self myfile)\<lparr>logged := []\<rparr>))
            \<lparr>logged := []\<rparr>"
    using Cons.IH [of "parse_file_as_json loads self myfile"] by (simp add: ingest_def)
  also have "\<dots> = (ingest loads files
                      ((parse_file_as_json loads (self\<lparr>logged := []\<rparr>) myfile)
                         \<lparr>logged := []\<rparr>))\<lparr>logged := []\<rparr>"
    by (simp only: parse_file_forgets_log [of loads self myfile])
  also have "\<dots> = (ingest loads (myfile # files) (self\<lparr>logged := []\<rparr>))\<lparr>logged := []\<rparr>"
    using Cons.IH [of "parse_file_as_json loads (self\<lparr>logged := []\<rparr>) myfile"]
    by (simp add: ingest_def)
  finally show ?case .
qed

lemma parse_failure_forgets_file:
  "loads (mf_f myfile) = None \<Longrightarrow>
   (parse_file_as_json loads self myfile)\<lparr>logged := []\<rparr> = self\<lparr>logged := []\<rparr>"
  by (simp add: parse_file_as_json_def)

lemma ingest_parseable_only:
  "(ingest loads files self)\<lparr>logged := []\<rparr> =
     (ingest loads (filter (\<lambda>myfile. loads (mf_f myfile) \<noteq> None) files) self)\<lparr>logged := []\<rparr>"
proof (induction files arbitrary: self)
  case Nil
  then show ?case by simp
next
  case (Cons myfile files)
  show ?case
  proof (cases "loads (mf_f myfile)")
    case None
    have "(ingest loads (myfile # files) self)\<lparr>logged := []\<rparr> =
            (ingest loads files ((parse_file_as_json loads self myfile)\<lparr>logged := []\<rparr>))
              \<lparr>logged := []\<rparr>"
      using ingest_forgets_log [of loads files "parse_file_as_json loads self myfile"]
      by (simp add: ingest_def)
    also have "\<dots> = (ingest loads files (self\<lparr>logged := []\<rparr>))\<lparr>logged := []\<rparr>"
      using None by (simp add: parse_failure_forgets_file)
    also have "\<dots> = (ingest loads files self)\<lparr>logged := []\<rparr>"
      by (rule ingest_forgets_log [symmetric])
    finally show ?thesis using None Cons.IH [of self] by simp
  next
    case (Some c)
    then show ?thesis
      using Cons.IH [of "parse_file_as_json loads self myfile"] by (simp add: ingest_def)
  qed
qed

lemma logged_parse_file_mono:
  "set (logged self) \<subseteq> set (logged (parse_file_as_json loads self myfile))"
proof (cases "loads (mf_f myfile)")
  case None
  then show ?thesis by (auto simp: parse_file_as_json_def)
next
  case (Some c)
  let ?data = "if map_of (bcl2fastq_data self) (RunId c) = None
               then AList.update (RunId c) [] (bcl2fastq_data self) else bcl2fastq_data self"
  let ?st = "(case map_of ?data (RunId c) of Some rd \<Rightarrow> rd | None \<Rightarrow> [], logged self)"
  have "logged (parse_file_as_json loads self myfile) =
          snd (fold (conversion_step (RunId c) myfile) (ConversionResults c) ?st)"
    using Some by (simp add: parse_file_as_json_def Let_def)
  with snd_fold_conversion_step_mono [of ?st "RunId c" myfile "ConversionResults c"]
  show ?thesis by simp
qed

lemma logged_ingest_mono:
  "set (logged self) \<subseteq> set (logged (ingest loads files self))"
proof (induction files arbitrary: self)
  case Nil
  then show ?case by (simp add: ingest_def)
next
  case (Cons myfile files)
  from Cons.IH [of "parse_file_as_json loads self myfile"]
    logged_parse_file_mono [of self loads myfile]
  show ?case by (auto simp: ingest_def)
qed

lemma parse_failure_warns:
  assumes "myfile \<in> set files" "loads (mf_f myfile) = None"
  shows "(WARNING, ''Could not parse file as json: '' @ mf_fn myfile)
           \<in> set (logged (ingest loads files self))"
  using assms(1)
proof (induction files arbitrary: self)
  case Nil
  then show ?case by simp
next
  case (Cons x files)
  show ?case
  proof (cases "x = myfile")
    case True
    with assms(2) have "(WARNING, ''Could not parse file as json: '' @ mf_fn myfile)
        \<in> set (logged (parse_file_as_json loads self x))"
      by (simp add: parse_file_as_json_def)
    with logged_ingest_mono [of "parse_file_as_json loads self x" loads files]
    show ?thesis by (auto simp: ingest_def)
  next
    case False
    with Cons.prems have "myfile \<in> set files" by simp
    from Cons.IH [OF this, of "parse_file_as_json loads self x"] show ?thesis
      by (simp add: ingest_def)
  qed
qed

lemma split_forgets_log:
  "split_data_by_lane_and_sample (self\<lparr>logged := lg\<rparr>) =
     (case split_data_by_lane_and_sample self of
        Inl e \<Rightarrow> Inl e | Inr st \<Rightarrow> Inr (st\<lparr>logged := lg\<rparr>))"
  by (simp add: split_data_by_lane_and_sample_def split: sum.splits)

lemma module_restore_log:
  "(a :: module)\<lparr>logged := []\<rparr> = b\<lparr>logged := []\<rparr> \<Longrightarrow> a = b\<lparr>logged := logged a\<rparr>"
  by (cases a, cases b) simp

subsection \<open>Lanes reported twice\<close>

lemma fold_set_lane_present:
  assumes "map_of rd l \<noteq> None \<or> l \<in> lane_name ` set crs"
  shows "map_of (fold (set_lane myfile) crs rd) l \<noteq> None"
proof -
  have "map_of (fold (set_lane myfile) crs rd) l =
          (map_of rd ++ map_of (rev (map (\<lambda>cr. (lane_name cr, lane_record myfile cr)) crs))) l"
    by (simp add: fold_set_lane map_of_fold_update)
  moreover have "l \<in> lane_name ` set crs \<Longrightarrow>
      map_of (rev (map (\<lambda>cr. (lane_name cr, lane_record myfile cr)) crs)) l \<noteq> None"
    by (simp add: map_of_eq_None_iff image_image)
  ultimately show ?thesis using assms by (auto simp: map_add_def split: option.splits)
qed

lemma duplicate_logged:
  assumes "crs = crs1 @ cr # crs2"
    and "map_of rd (lane_name cr) \<noteq> None \<or> lane_name cr \<in> lane_name ` set crs1"
  shows "duplicate_message runId (lane_name cr)
           \<in> set (snd (fold (conversion_step runId myfile) crs (rd, lg)))"
proof -
  let ?st1 = "fold (conversion_step runId myfile) crs1 (rd, lg)"
  have "map_of (fst ?st1) (lane_name cr) \<noteq> None"
    using assms(2) by (simp add: fst_fold_conversion_step fold_set_lane_present)
  then have "duplicate_message runId (lane_name cr)
               \<in> set (snd (conversion_step runId myfile cr ?st1))"
    by (simp add: conversion_step_def Let_def duplicate_message_def)
  with snd_fold_conversion_step_mono [of "conversion_step runId myfile cr ?st1" runId myfile crs2]
  show ?thesis by (auto simp: assms(1))
qed

lemma set_lane_last:
  assumes "crs = crs1 @ cr # crs2" "LaneNumber cr \<notin> LaneNumber ` set crs2"
  shows "map_of (fold (set_lane myfile) crs rd) (lane_name cr) = Some (lane_record myfile cr)"
proof -
  let ?e = "\<lambda>cr. (lane_name cr, lane_record myfile cr)"
  have "lane_name cr \<notin> fst ` set (map ?e crs2)"
    using assms(2) by (auto simp: lane_name_eq_iff image_iff)
  with assms(1) have "map_of (rev (map ?e crs)) (lane_name cr) = Some (lane_record myfile cr)"
    using map_of_rev_last [of "map ?e crs" "map ?e crs1" "lane_name cr" "lane_record myfile cr"
        "map ?e crs2"]
    by simp
  then show ?thesis
    by (simp add: fold_set_lane map_of_fold_update map_add_def)
qed

lemma earlier_file_present:
  assumes "earlier \<in> set files" "reports_lane loads earlier r n"
  shows "flat (bcl2fastq_data (ingest loads files self)) (r, ''L'' @ str_int n) \<noteq> None"
proof -
  from assms(2) obtain c cr where c: "loads (mf_f earlier) = Some c" "RunId c = r"
      "cr \<in> set (ConversionResults c)" "LaneNumber cr = n"
    by (auto simp: reports_lane_def split: option.splits)
  then have "lane_name cr = ''L'' @ str_int n" by (simp add: lane_name_def)
  with c assms(1) have "(r, ''L'' @ str_int n) \<in> fst ` set (all_entries loads files)"
    unfolding all_entries_keys by (metis image_eqI)
  then have "map_of (rev (all_entries loads files)) (r, ''L'' @ str_int n) \<noteq> None"
    by (simp add: map_of_eq_None_iff)
  then show ?thesis
    by (auto simp: flat_ingest map_add_def split: option.splits)
qed

lemma parse_file_logged:
  assumes "loads (mf_f myfile) = Some c"
  shows "logged (parse_file_as_json loads self myfile) =
           snd (fold (conversion_step (RunId c) myfile) (ConversionResults c)
                  (case map_of (bcl2fastq_data self) (RunId c) of Some rd \<Rightarrow> rd | None \<Rightarrow> [],
                   logged self))"
  using assms
  by (simp add: parse_file_as_json_def Let_def update_conv' split: option.splits)

subsection \<open>The by-sample view\<close>

lemma bs_step_lookup:
  "map_of (bs_step r e bs) k =
     (if k = prepend_runid r (fst e)
      then Some (case map_of bs k of
                   None \<Rightarrow> \<lparr>total_cnt = total_cnt (snd e), perfectIndex = perfectIndex (snd e),
                             undetermined = None\<rparr>
                 | Some a \<Rightarrow> a\<lparr>total_cnt := total_cnt a + total_cnt (snd e),
                               perfectIndex := perfectIndex a + perfectIndex (snd e)\<rparr>)
      else map_of bs k)"
  by (auto simp: bs_step_def Let_def map_of_map_entry update_conv' split: option.splits)

lemma bysample_fold_lookup:
  "map_of (fold (\<lambda>c. bs_step (fst c) (snd c)) cs bs) k =
     (case map_of bs k of
        None \<Rightarrow>
          if k \<in> key_of ` set cs
          then Some \<lparr>total_cnt = sum_for total_cnt k cs, perfectIndex = sum_for perfectIndex k cs,
                     undetermined = None\<rparr>
          else None
      | Some a \<Rightarrow>
          Some (a\<lparr>total_cnt := total_cnt a + sum_for total_cnt k cs,
                  perfectIndex := perfectIndex a + sum_for perfectIndex k cs\<rparr>))"
proof (induction cs arbitrary: bs)
  case Nil
  then show ?case by (simp add: sum_for_def split: option.splits)
next
  case (Cons c cs)
  show ?case
  proof (cases "key_of c = k")
    case True
    then have k: "k = prepend_runid (fst c) (fst (snd c))" by (simp add: key_of_def)
    show ?thesis
      using True
      by (simp add: Cons.IH bs_step_lookup k [symmetric] sum_for_def split: option.splits)
  next
    case False
    then have k: "k \<noteq> prepend_runid (fst c) (fst (snd c))" by (auto simp: key_of_def)
    show ?thesis
      using False
      by (simp add: Cons.IH bs_step_lookup k sum_for_def split: option.splits)
  qed
qed

lemma bysample_of_lookup:
  "map_of (bysample_of t []) k =
     (if k \<in> key_of ` set (contribs t)
      then Some \<lparr>total_cnt = sum_for total_cnt k (contribs t),
                 perfectIndex = sum_for perfectIndex k (contribs t), undetermined = None\<rparr>
      else None)"
  by (simp add: bysample_of_def bysample_fold_lookup)

lemma contribs_single_Nil: "contribs [(r, [])] = []"
  by (simp add: contribs_def lanes_of_def)

lemma contribs_single_Cons:
  "contribs [(r, e # rd)] = map (\<lambda>x. (r, x)) (samples (snd e)) @ contribs [(r, rd)]"
  by (simp add: contribs_def lanes_of_def)

lemma sum_filter_key:
  "distinct (map fst al) \<Longrightarrow>
   sum_list (map (\<lambda>e. g (snd e)) (filter (\<lambda>e. fst e = s) al)) =
     (case map_of al s of None \<Rightarrow> 0 | Some v \<Rightarrow> g v)"
proof (induction al)
  case Nil
  then show ?case by simp
next
  case (Cons e al)
  show ?case
  proof (cases "fst e = s")
    case True
    with Cons.prems have "s \<notin> fst ` set al" by auto
    then have "filter (\<lambda>e. fst e = s) al = []" by (auto simp: filter_empty_conv)
    with True show ?thesis by (cases e) simp
  next
    case False
    with Cons show ?thesis by (cases e) simp
  qed
qed

lemma sum_for_samples:
  assumes "distinct (map fst al)"
  shows "sum_for g (prepend_runid r s) (map (\<lambda>x. (r, x)) al) =
           (case map_of al s of None \<Rightarrow> 0 | Some v \<Rightarrow> g v)"
proof -
  have "sum_for g (prepend_runid r s) (map (\<lambda>x. (r, x)) al) =
          sum_list (map (\<lambda>e. g (snd e)) (filter (\<lambda>e. fst e = s) al))"
    by (simp add: sum_for_def key_of_def prepend_runid_same filter_map comp_def)
  with assms show ?thesis by (simp add: sum_filter_key)
qed

lemma sum_for_append: "sum_for g k (xs @ ys) = sum_for g k xs + sum_for g k ys"
  by (simp add: sum_for_def)

lemma sum_for_single_run:
  assumes "\<forall>e \<in> set rd. distinct (map fst (samples (snd e)))"
  shows "sum_for g (prepend_runid r s) (contribs [(r, rd)]) =
           sum_list (map (\<lambda>e. sample_count g (snd e) s) rd)"
  using assms
proof (induction rd)
  case Nil
  then show ?case by (simp add: contribs_single_Nil sum_for_def)
next
  case (Cons e rd)
  then show ?case
    by (simp add: contribs_single_Cons sum_for_append sum_for_samples sample_count_def)
qed

lemma key_single_run:
  "prepend_runid r s \<in> key_of ` set (contribs [(r, rd)]) \<longleftrightarrow>
     (\<exists>e \<in> set rd. s \<in> fst ` set (samples (snd e)))"
proof (induction rd)
  case Nil
  then show ?case by (simp add: contribs_single_Nil)
next
  case (Cons e rd)
  have "prepend_runid r s \<in> key_of ` set (map (\<lambda>x. (r, x)) (samples (snd e))) \<longleftrightarrow>
          s \<in> fst ` set (samples (snd e))"
    by (auto simp: key_of_def prepend_runid_same image_iff)
  with Cons show ?case
    by (simp add: contribs_single_Cons image_Un)
qed

lemma update_fresh: "k \<notin> fst ` set al \<Longrightarrow> AList.update k v al = al @ [(k, v)]"
  by (induction al) auto

lemma fold_set_lane_fresh:
  assumes "distinct (map lane_name crs)" "lane_name ` set crs \<inter> fst ` set rd = {}"
  shows "fold (set_lane myfile) crs rd =
           rd @ map (\<lambda>cr. (lane_name cr, lane_record myfile cr)) crs"
  using assms
proof (induction crs arbitrary: rd)
  case Nil
  then show ?case by simp
next
  case (Cons cr crs)
  from Cons.prems have fresh: "lane_name cr \<notin> fst ` set rd" by auto
  then have step: "set_lane myfile cr rd = rd @ [(lane_name cr, lane_record myfile cr)]"
    by (simp add: set_lane_def update_fresh)
  from Cons.prems have "distinct (map lane_name crs)"
    and "lane_name ` set crs \<inter> fst ` set (rd @ [(lane_name cr, lane_record myfile cr)]) = {}"
    by auto
  from Cons.IH [OF this] step show ?case by simp
qed

lemma distinct_lane_names:
  "distinct (map LaneNumber crs) \<Longrightarrow> distinct (map lane_name crs)"
  by (auto simp: distinct_map inj_on_def lane_name_eq_iff)

lemma ingest_two_files:
  assumes "loads (mf_f file1) = Some c1" "loads (mf_f file2) = Some c2"
    and "RunId c1 = RunId c2"
    and "distinct (map LaneNumber (ConversionResults c1 @ ConversionResults c2))"
  shows "bcl2fastq_data (ingest loads [file1, file2] new_module) =
           [(RunId c1,
             map (\<lambda>cr. (lane_name cr, lane_record file1 cr)) (ConversionResults c1)
             @ map (\<lambda>cr. (lane_name cr, lane_record file2 cr)) (ConversionResults c2))]"
proof -
  let ?rd1 = "map (\<lambda>cr. (lane_name cr, lane_record file1 cr)) (ConversionResults c1)"
  from assms(4) have d1: "distinct (map lane_name (ConversionResults c1))"
    and d2: "distinct (map lane_name (ConversionResults c2))"
    by (simp_all add: distinct_lane_names)
  have 1: "fold (set_lane file1) (ConversionResults c1) [] = ?rd1"
    using fold_set_lane_fresh [OF d1, of "[]" file1] by simp
  have "LaneNumber ` set (ConversionResults c1) \<inter> LaneNumber ` set (ConversionResults c2) = {}"
    using assms(4) by simp
  then have "lane_name ` set (ConversionResults c2) \<inter> fst ` set ?rd1 = {}"
    by (force simp: lane_name_eq_iff image_iff)
  from fold_set_lane_fresh [OF d2 this, of file2]
  have 2: "fold (set_lane file2) (ConversionResults c2) ?rd1 =
             ?rd1 @ map (\<lambda>cr. (lane_name cr, lane_record file2 cr)) (ConversionResults c2)" .
  have "bcl2fastq_data (parse_file_as_json loads new_module file1) = [(RunId c1, ?rd1)]"
    using assms(1) by (simp add: parse_file_data new_module_def 1)
  then show ?thesis
    using assms(2,3) by (simp add: ingest_def parse_file_data 2)
qed

lemma lane_record_distinct: "distinct (map fst (samples (lane_record myfile cr)))"
  using lane_record_ok [of myfile cr] by (simp add: lane_ok_def)

subsection \<open>A sample named undetermined\<close>

lemma fold_update_fresh:
  assumes "distinct (map k xs)" "k ` set xs \<inter> fst ` set al = {}"
  shows "fold (\<lambda>x. AList.update (k x) (g x)) xs al = al @ map (\<lambda>x. (k x, g x)) xs"
  using assms
proof (induction xs arbitrary: al)
  case Nil
  then show ?case by simp
next
  case (Cons x xs)
  from Cons.prems have "k x \<notin> fst ` set al" by auto
  then have step: "AList.update (k x) (g x) al = al @ [(k x, g x)]"
    by (rule update_fresh)
  from Cons.prems have "distinct (map k xs)"
    and "k ` set xs \<inter> fst ` set (al @ [(k x, g x)]) = {}"
    by auto
  from Cons.IH [OF this] step show ?case by simp
qed

lemma filter_update_other:
  "filter (\<lambda>e. fst e \<noteq> k) (AList.update k v al) = filter (\<lambda>e. fst e \<noteq> k) al"
  by (induction al) auto

lemma filter_key_single:
  "distinct (map f xs) \<Longrightarrow> x \<in> set xs \<Longrightarrow> filter (\<lambda>y. f y = f x) xs = [x]"
proof (induction xs)
  case Nil
  then show ?case by simp
next
  case (Cons a xs)
  show ?case
  proof (cases "a = x")
    case True
    with Cons.prems have "\<forall>y \<in> set xs. f y \<noteq> f x" by (auto simp: image_iff)
    then have "filter (\<lambda>y. f y = f x) xs = []" by (simp add: filter_empty_conv)
    with True show ?thesis by simp
  next
    case False
    with Cons.prems have "x \<in> set xs" by simp
    with Cons.prems have "f a \<noteq> f x" by auto
    with Cons \<open>x \<in> set xs\<close> show ?thesis by simp
  qed
qed

lemma sum_list_split_filter:
  fixes h :: "'a \<Rightarrow> int"
  shows "sum_list (map h xs) =
     sum_list (map h (filter P xs)) + sum_list (map h (filter (\<lambda>x. \<not> P x) xs))"
  by (induction xs) auto

lemma samples_distinct_names:
  assumes "distinct (map SampleName ds)"
  shows "fold (set_sample myfile) ds [] = map (\<lambda>d. (SampleName d, sample_of myfile d)) ds"
  using fold_update_fresh [OF assms, of "[]" "sample_of myfile"]
  by (simp add: fold_set_sample)

lemma other_samples_total_eq:
  assumes "distinct (map SampleName (DemuxResults cr))"
  shows "other_samples_total (lane_record myfile cr) =
           sum_list (map NumberReads
                       (filter (\<lambda>d. SampleName d \<noteq> ''undetermined'') (DemuxResults cr)))"
  by (simp add: other_samples_total_def lane_record_eq filter_update_other
      samples_distinct_names [OF assms] filter_map comp_def sample_of_def)

lemma samples_total_eq:
  "samples_total (lane_record myfile cr) =
     other_samples_total (lane_record myfile cr) + Undetermined_NumberReads cr"
proof -
  let ?al = "samples (lane_record myfile cr)"
  let ?u = "(''undetermined'', undetermined_of cr)"
  have d: "distinct (map fst ?al)" by (rule lane_record_distinct)
  have "map_of ?al ''undetermined'' = Some (undetermined_of cr)"
    by (simp add: samples_undetermined undetermined_of_def)
  then have m: "?u \<in> set ?al" by (rule map_of_SomeD)
  have "filter (\<lambda>e. fst e = fst ?u) ?al = [?u]"
    using d m by (rule filter_key_single)
  then have f: "filter (\<lambda>e. fst e = ''undetermined'') ?al = [?u]" by simp
  show ?thesis
    unfolding samples_total_def other_samples_total_def
    by (subst sum_list_split_filter [of _ _ "\<lambda>e. fst e \<noteq> ''undetermined''"])
       (simp add: f undetermined_of_def)
qed

lemma lane_total_with_shadowed:
  assumes "distinct (map SampleName (DemuxResults cr))"
    and "d \<in> set (DemuxResults cr)" "SampleName d = ''undetermined''"
  shows "total_cnt (lane_record myfile cr) =
           other_samples_total (lane_record myfile cr) + NumberReads d"
proof -
  have "filter (\<lambda>y. SampleName y = SampleName d) (DemuxResults cr) = [d]"
    using assms(1,2) by (rule filter_key_single)
  then have f: "filter (\<lambda>y. SampleName y = ''undetermined'') (DemuxResults cr) = [d]"
    using assms(3) by simp
  have "total_cnt (lane_record myfile cr) = sum_list (map NumberReads (DemuxResults cr))"
    by (simp add: lane_record_eq)
  also have "\<dots> = sum_list (map NumberReads
                       (filter (\<lambda>d. SampleName d \<noteq> ''undetermined'') (DemuxResults cr)))
                   + NumberReads d"
    by (subst sum_list_split_filter [of _ _ "\<lambda>d. SampleName d \<noteq> ''undetermined''"])
       (simp add: f)
  finally show ?thesis by (simp add: other_samples_total_eq [OF assms(1)])
qed

lemma ingest_one_file:
  assumes "loads (mf_f myfile) = Some c" "distinct (map LaneNumber (ConversionResults c))"
  shows "bcl2fastq_data (ingest loads [myfile] new_module) =
           [(RunId c, map (\<lambda>cr. (lane_name cr, lane_record myfile cr)) (ConversionResults c))]"
proof -
  from assms(2) have "distinct (map lane_name (ConversionResults c))"
    by (rule distinct_lane_names)
  from fold_set_lane_fresh [OF this, of "[]" myfile]
  have "fold (set_lane myfile) (ConversionResults c) [] =
          map (\<lambda>cr. (lane_name cr, lane_record myfile cr)) (ConversionResults c)"
    by simp
  then show ?thesis
    using assms(1) by (simp add: ingest_def parse_file_data new_module_def)
qed

lemma sf_step_keys:
  assumes "k \<in> fst ` set (sf_step r e sf)"
  shows "k \<in> fst ` set sf \<or> (fst e \<noteq> ''undetermined'' \<and> k = prepend_runid r (fst e))"
proof (cases "fst e \<noteq> ''undetermined'' \<and> filename (snd e) \<noteq> None")
  case True
  then obtain name where n: "filename (snd e) = Some name" by auto
  let ?k = "prepend_runid r (fst e)"
  let ?sf = "if map_of sf ?k = None then AList.update ?k [] sf else sf"
  from True n have "sf_step r e sf = AList.map_entry ?k (\<lambda>l. l @ [name]) ?sf"
    by (simp add: sf_step_def)
  with assms have "k \<in> fst ` set ?sf" by (simp add: dom_map_entry)
  then have "k \<in> fst ` set sf \<or> k = ?k"
    by (cases "map_of sf ?k = None") (auto simp add: dom_update)
  with True show ?thesis by blast
next
  case False
  then have "sf_step r e sf = sf" by (auto simp: sf_step_def)
  with assms show ?thesis by simp
qed

lemma sources_fold_keys:
  assumes "k \<in> fst ` set (fold (\<lambda>c. sf_step (fst c) (snd c)) cs sf)"
  shows "k \<in> fst ` set sf \<or> (\<exists>c \<in> set cs. fst (snd c) \<noteq> ''undetermined'' \<and> key_of c = k)"
  using assms
proof (induction cs arbitrary: sf)
  case Nil
  then show ?case by simp
next
  case (Cons c cs)
  from Cons.prems have "k \<in> fst ` set (fold (\<lambda>c. sf_step (fst c) (snd c)) cs
                                          (sf_step (fst c) (snd c) sf))"
    by simp
  from Cons.IH [OF this]
  have "k \<in> fst ` set (sf_step (fst c) (snd c) sf)
        \<or> (\<exists>x \<in> set cs. fst (snd x) \<noteq> ''undetermined'' \<and> key_of x = k)" .
  then show ?case
  proof
    assume "k \<in> fst ` set (sf_step (fst c) (snd c) sf)"
    from sf_step_keys [OF this]
    have "k \<in> fst ` set sf \<or> (fst (snd c) \<noteq> ''undetermined'' \<and> key_of c = k)"
      by (auto simp: key_of_def)
    then show ?thesis by auto
  next
    assume "\<exists>x \<in> set cs. fst (snd x) \<noteq> ''undetermined'' \<and> key_of x = k"
    then show ?thesis by auto
  qed
qed

lemma contribs_single_run_fst: "c \<in> set (contribs [(r, rd)]) \<Longrightarrow> fst c = r"
  by (induction rd) (auto simp: contribs_single_Nil contribs_single_Cons)

lemma sources_no_undetermined:
  "map_of (sources_of [(r, rd)] []) (prepend_runid r ''undetermined'') = None"
proof -
  have "prepend_runid r ''undetermined'' \<notin> fst ` set (sources_of [(r, rd)] [])"
  proof
    assume "prepend_runid r ''undetermined'' \<in> fst ` set (sources_of [(r, rd)] [])"
    then have "prepend_runid r ''undetermined''
                 \<in> fst ` set (fold (\<lambda>c. sf_step (fst c) (snd c)) (contribs [(r, rd)]) [])"
      by (simp add: sources_of_def)
    from sources_fold_keys [OF this]
    obtain c where c: "c \<in> set (contribs [(r, rd)])" "fst (snd c) \<noteq> ''undetermined''"
        "key_of c = prepend_runid r ''undetermined''"
      by auto
    from c(1) have "fst c = r" by (rule contribs_single_run_fst)
    with c(2,3) show False by (simp add: key_of_def prepend_runid_same)
  qed
  then show ?thesis by (simp add: map_of_eq_None_iff)
qed

lemma map_of_lane_entries:
  assumes "distinct (map LaneNumber crs)" "cr \<in> set crs"
  shows "map_of (map (\<lambda>cr. (lane_name cr, lane_record myfile cr)) crs) (lane_name cr)
           = Some (lane_record myfile cr)"
proof -
  from assms(1) have "distinct (map lane_name crs)" by (rule distinct_lane_names)
  then have "distinct (map fst (map (\<lambda>cr. (lane_name cr, lane_record myfile cr)) crs))"
    by (simp add: comp_def)
  moreover have "(lane_name cr, lane_record myfile cr)
                   \<in> set (map (\<lambda>cr. (lane_name cr, lane_record myfile cr)) crs)"
    using assms(2) by auto
  ultimately show ?thesis by (rule map_of_is_SomeI)
qed

lemma sample_count_undetermined:
  "sample_count total_cnt (lane_record myfile cr) ''undetermined'' = Undetermined_NumberReads cr"
  "sample_count perfectIndex (lane_record myfile cr) ''undetermined'' = 0"
  by (simp_all add: sample_count_def samples_undetermined)

lemma bysample_undetermined_single_run:
  assumes "crs \<noteq> []"
  shows "map_of (bysample_of [(r, map (\<lambda>cr. (lane_name cr, lane_record myfile cr)) crs)] [])
           (prepend_runid r ''undetermined'') =
         Some \<lparr>total_cnt = sum_list (map Undetermined_NumberReads crs), perfectIndex = 0,
               undetermined = None\<rparr>"
proof -
  let ?rd = "map (\<lambda>cr. (lane_name cr, lane_record myfile cr)) crs"
  have d: "\<forall>e \<in> set ?rd. distinct (map fst (samples (snd e)))"
    by (auto simp: lane_record_distinct)
  from assms obtain cr where cr: "cr \<in> set crs" by (cases crs) auto
  have "''undetermined'' \<in> fst ` set (samples (lane_record myfile cr))"
    using samples_undetermined [of myfile cr] by (metis domI dom_map_of_conv_image_fst)
  with cr have k: "prepend_runid r ''undetermined'' \<in> key_of ` set (contribs [(r, ?rd)])"
    unfolding key_single_run by force
  show ?thesis
    using k
    by (simp add: bysample_of_lookup sum_for_single_run [OF d] comp_def
        sample_count_undetermined)
qed

subsection \<open>The general statistics and the constructor\<close>

lemma stats_rows_ok:
  "stats_ok xs \<Longrightarrow> stats_rows xs = Inr (map stats_row_of xs)"
  by (induction xs) (simp_all add: stats_ok_def perfect_percent_def stats_row_of_def)

lemma stats_rows_fail:
  "\<not> stats_ok xs \<Longrightarrow>
   stats_rows xs = Inl ZeroDivisionError \<or> stats_rows xs = Inl OverflowError"
proof (induction xs)
  case Nil
  then show ?case by (simp add: stats_ok_def)
next
  case (Cons e xs)
  show ?case
  proof (cases "stats_ok [e]")
    case True
    with Cons.prems have "\<not> stats_ok xs" by (simp add: stats_ok_def)
    from Cons.IH [OF this] True show ?thesis
      by (auto simp: stats_ok_def perfect_percent_def)
  next
    case False
    then show ?thesis by (auto simp: stats_ok_def perfect_percent_def)
  qed
qed

lemma fold_add_data_source:
  "fold add_data_source xs self =
     self\<lparr>data_sources := data_sources self @ map (\<lambda>e. (fst e, set (snd e))) xs\<rparr>"
  by (induction xs arbitrary: self) (simp_all add: add_data_source_def)

lemma report_outputs_ok:
  assumes "stats_ok (bcl2fastq_bysample self)"
  shows "report_outputs env self =
           (None,
            self\<lparr>data_sources := data_sources self
                     @ map (\<lambda>e. (fst e, set (snd e))) (source_files self),
                 general_stats := general_stats self
                     @ [(map stats_row_of (bcl2fastq_bysample self),
                         general_stats_headers env)],
                 data_files := data_files self
                     @ [(''multiqc_bcl2fastq_bylane'', bcl2fastq_bylane self),
                        (''multiqc_bcl2fastq_bysample'', bcl2fastq_bysample self)],
                 sections := sections self @ [section_bylane self, section_bysample self]\<rparr>)"
  using assms
  by (simp add: report_outputs_def fold_add_data_source add_general_stats_def stats_rows_ok
      write_data_file_def add_section_def section_bylane_def section_bysample_def Let_def)

lemma report_outputs_fail:
  assumes "\<not> stats_ok (bcl2fastq_bysample self)"
  shows "(fst (report_outputs env self) = Some ZeroDivisionError
          \<or> fst (report_outputs env self) = Some OverflowError)
         \<and> snd (report_outputs env self) =
             self\<lparr>data_sources := data_sources self
                      @ map (\<lambda>e. (fst e, set (snd e))) (source_files self)\<rparr>"
  using stats_rows_fail [OF assms]
  by (auto simp: report_outputs_def fold_add_data_source add_general_stats_def Let_def)

lemma fits_float_small: "\<bar>n\<bar> < 2 ^ 64 \<Longrightarrow> fits_float n"
  by (simp add: fits_float_def)

lemma init_ingested:
  "init env files =
     (if bcl2fastq_bylane (filtered_module env files) = []
         \<and> bcl2fastq_bysample (filtered_module env files) = []
      then (Some UserWarning,
            (filtered_module env files)
              \<lparr>logged := logged (filtered_module env files)
                   @ [(DEBUG, ''Could not find any bcl2fastq data in ''
                               @ cfg_analysis_dir env)]\<rparr>)
      else report_outputs env (filtered_module env files))"
  by (simp add: init_def split_ingested filtered_module_def Let_def)

lemma ingest_outputs:
  "data_sources (ingest loads files self) = data_sources self
   \<and> general_stats (ingest loads files self) = general_stats self
   \<and> data_files (ingest loads files self) = data_files self
   \<and> sections (ingest loads files self) = sections self"
proof (induction files arbitrary: self)
  case Nil
  then show ?case by (simp add: ingest_def)
next
  case (Cons myfile files)
  have "data_sources (parse_file_as_json loads self myfile) = data_sources self
        \<and> general_stats (parse_file_as_json loads self myfile) = general_stats self
        \<and> data_files (parse_file_as_json loads self myfile) = data_files self
        \<and> sections (parse_file_as_json loads self myfile) = sections self"
    by (simp add: parse_file_as_json_def Let_def split: option.splits)
  with Cons.IH [of "parse_file_as_json loads self myfile"] show ?case
    by (simp add: ingest_def)
qed

lemma ingest_new_outputs:
  "data_sources (ingest loads files new_module) = []"
  "general_stats (ingest loads files new_module) = []"
  "data_files (ingest loads files new_module) = []"
  "sections (ingest loads files new_module) = []"
  by (simp_all add: ingest_outputs) (simp_all add: new_module_def)

lemma filtered_module_fields:
  "data_sources (filtered_module env files) = []"
  "general_stats (filtered_module env files) = []"
  "data_files (filtered_module env files) = []"
  "sections (filtered_module env files) = []"
  by (simp_all add: filtered_module_def Let_def ingest_new_outputs)

lemma filtered_module_views:
  "\<exists>st0. split_data_by_lane_and_sample (ingest (env_loads env) files new_module) = Inr st0
         \<and> bcl2fastq_bylane (filtered_module env files) =
             env_ignore_samples env (bcl2fastq_bylane st0)
         \<and> bcl2fastq_bysample (filtered_module env files) =
             env_ignore_samples env (bcl2fastq_bysample st0)"
  by (simp add: split_ingested filtered_module_def Let_def)

lemma section_same_views:
  "bcl2fastq_bylane a = bcl2fastq_bylane b \<Longrightarrow> section_bylane a = section_bylane b"
  "bcl2fastq_bysample a = bcl2fastq_bysample b \<Longrightarrow> section_bysample a = section_bysample b"
  by (simp_all add: section_bylane_def section_bysample_def)

lemma format_percent_examples:
  "format_percent 90 100 = ''90.0''" "format_percent 0 10 = ''0.0''"
  by code_simp+

lemmas init_unfold = init_def report_outputs_def add_general_stats_def perfect_percent_def
  fits_float_def add_data_source_def write_data_file_def add_section_def example_env_def
  example_loads_def example_file_def example_report_def file_clean_def clean_report_def

lemma init_example_views:
  "bcl2fastq_bysample (snd (init example_env [example_file])) =
     [(''RUN1 - S1'', \<lparr>total_cnt = 100, perfectIndex = 90, undetermined = None\<rparr>),
      (''RUN1 - undetermined'', \<lparr>total_cnt = 10, perfectIndex = 0, undetermined = None\<rparr>)]"
  by (simp add: init_unfold ingest_unfold split_unfold str_int_1 Let_def)

lemma init_clean_views:
  "bcl2fastq_bysample (snd (init example_env [file_clean])) =
     [(''RUN1 - S1'', \<lparr>total_cnt = 100, perfectIndex = 90, undetermined = None\<rparr>),
      (''RUN1 - undetermined'', \<lparr>total_cnt = 0, perfectIndex = 0, undetermined = None\<rparr>)]"
  by (simp add: init_unfold ingest_unfold split_unfold str_int_1 Let_def)

lemma init_none_views:
  "bcl2fastq_bylane (snd (init example_env [])) = []
   \<and> bcl2fastq_bysample (snd (init example_env [])) = []"
  by (simp add: init_unfold ingest_unfold split_unfold Let_def)

lemma stats_rows_zero_iff:
  assumes "\<forall>e \<in> set xs. fits_float (perfectIndex (snd e)) \<and> fits_float (total_cnt (snd e))"
  shows "stats_rows xs = Inl ZeroDivisionError \<longleftrightarrow> (\<exists>e \<in> set xs. total_cnt (snd e) = 0)"
  using assms
proof (induction xs)
  case Nil
  then show ?case by simp
next
  case (Cons e xs)
  then have f: "fits_float (perfectIndex (snd e))" "fits_float (total_cnt (snd e))"
    and ih: "stats_rows xs = Inl ZeroDivisionError \<longleftrightarrow> (\<exists>e \<in> set xs. total_cnt (snd e) = 0)"
    by simp_all
  show ?case
  proof (cases "total_cnt (snd e) = 0")
    case True
    with f show ?thesis by (simp add: perfect_percent_def)
  next
    case False
    with f ih show ?thesis
      by (cases "stats_rows xs") (auto simp: perfect_percent_def)
  qed
qed

lemma format_percent_75: "format_percent 150 200 = ''75.0''"
  by code_simp

subsection \<open>The rounding steps of the float arithmetic\<close>

lemma bit_length_bounds:
  "0 < n \<Longrightarrow> n < 2 ^ bit_length n \<and> 2 ^ bit_length n \<le> 2 * n"
proof (induction n rule: bit_length.induct)
  case (1 n)
  show ?case
  proof (cases "0 < n div 2")
    case True
    with "1" have ih: "n div 2 < 2 ^ bit_length (n div 2)"
        "2 ^ bit_length (n div 2) \<le> 2 * (n div 2)"
      by simp_all
    have b: "bit_length n = Suc (bit_length (n div 2))"
      using "1.prems" by (subst bit_length.simps) simp
    from ih show ?thesis unfolding b by (simp) linarith
  next
    case False
    with "1.prems" have n: "n = 1" by linarith
    have "bit_length (1::int) = Suc (bit_length 0)" by (subst bit_length.simps) simp
    moreover have "bit_length 0 = 0" by (subst bit_length.simps) simp
    ultimately show ?thesis by (simp add: n)
  qed
qed

lemma rhe_div_nearest:
  assumes "0 < b"
  shows "\<bar>2 * (a - b * rhe_div a b)\<bar> \<le> b"
proof -
  define q where "q = a div b"
  define r where "r = a mod b"
  have a: "a = b * q + r" by (simp add: q_def r_def)
  have r: "0 \<le> r" "r < b" using assms by (simp_all add: r_def)
  have "rhe_div a b = (if 2 * r < b then q else if b < 2 * r then q + 1
                       else if even q then q else q + 1)"
    by (simp add: rhe_div_def Let_def q_def r_def)
  then show ?thesis
    using r by (auto simp: a algebra_simps)
qed

lemma rhe_div_exact: "0 < b \<Longrightarrow> rhe_div (b * k) b = k"
  by (simp add: rhe_div_def Let_def)

lemma floor_log2_bounds:
  assumes "0 < a" "0 < b"
  shows "if 0 \<le> floor_log2 a b
         then b * 2 ^ nat (floor_log2 a b) \<le> a \<and> a < b * 2 ^ nat (floor_log2 a b + 1)
         else b \<le> a * 2 ^ nat (- floor_log2 a b) \<and> a * 2 ^ nat (- floor_log2 a b - 1) < b"
proof -
  have nj: "\<And>j. nat (int j + 1) = Suc j" "\<And>j. nat (1 + int j) = Suc j"
    "\<And>j. nat (int j + 2) = Suc (Suc j)"
    by simp_all
  define la where "la = bit_length a"
  define lb where "lb = bit_length b"
  from bit_length_bounds [OF assms(1)] have a: "a < 2 ^ la" "2 ^ la \<le> 2 * a"
    by (simp_all add: la_def)
  from bit_length_bounds [OF assms(2)] have b: "b < 2 ^ lb" "2 ^ lb \<le> 2 * b"
    by (simp_all add: lb_def)
  show ?thesis
  proof (cases "lb \<le> la")
    case True
    define k where "k = la - lb"
    have la: "la = lb + k" using True by (simp add: k_def)
    have ik: "int la - int lb = int k" using True by (simp add: k_def)
    have pa: "(2::int) ^ la = 2 ^ lb * 2 ^ k" by (simp add: la power_add)
    show ?thesis
    proof (cases "b * 2 ^ k \<le> a")
      case t: True
      then have e: "floor_log2 a b = int k"
        by (simp add: floor_log2_def Let_def la_def [symmetric] lb_def [symmetric] ik)
      have "a < 2 ^ lb * 2 ^ k" using a(1) pa by simp
      also have "\<dots> \<le> (2 * b) * 2 ^ k" using b(2) by (simp add: mult_right_mono)
      finally have "a < b * 2 ^ (k + 1)" by (simp add: algebra_simps)
      with t show ?thesis by (simp add: e nat_add_distrib)
    next
      case f: False
      then have e: "floor_log2 a b = int k - 1"
        by (simp add: floor_log2_def Let_def la_def [symmetric] lb_def [symmetric] ik)
      show ?thesis
      proof (cases k)
        case 0
        with pa a(2) b(1) have "b \<le> a * 2" by simp
        with f 0 show ?thesis by (simp add: e)
      next
        case (Suc j)
        have "2 * (b * 2 ^ j) \<le> 2 * (2 ^ lb * 2 ^ j)"
          using b(1) by (simp add: mult_right_mono)
        also have "\<dots> = 2 ^ la" by (simp add: pa Suc)
        also have "\<dots> \<le> 2 * a" by (rule a(2))
        finally have "b * 2 ^ j \<le> a" by simp
        moreover have "nat (int j + 1) = Suc j" by simp
        ultimately show ?thesis using f Suc by (simp add: e del: of_nat_Suc) (simp add: not_le)
      qed
    qed
  next
    case False
    define k where "k = lb - la"
    have lb: "lb = la + k" and kp: "0 < k" using False by (simp_all add: k_def)
    have ik: "int la - int lb = - int k" using False by (simp add: k_def)
    have pb: "(2::int) ^ lb = 2 ^ la * 2 ^ k" by (simp add: lb power_add)
    obtain j where j: "k = Suc j" using kp by (cases k) auto
    show ?thesis
    proof (cases "b \<le> a * 2 ^ k")
      case t: True
      then have e: "floor_log2 a b = - int k"
        using kp by (simp add: floor_log2_def Let_def la_def [symmetric] lb_def [symmetric] ik)
      have "2 * (a * 2 ^ j) < 2 * (2 ^ la * 2 ^ j)"
        using a(1) by (simp add: mult_strict_right_mono)
      also have "\<dots> = 2 ^ lb" by (simp add: pb j)
      also have "\<dots> \<le> 2 * b" by (rule b(2))
      finally have "a * 2 ^ j < b" by simp
      with t kp show ?thesis by (simp add: e j nj)
    next
      case f: False
      then have e: "floor_log2 a b = - int k - 1"
        using kp by (simp add: floor_log2_def Let_def la_def [symmetric] lb_def [symmetric] ik)
      have "b < 2 ^ la * 2 ^ k" using b(1) pb by simp
      also have "\<dots> \<le> (2 * a) * 2 ^ k" using a(2) by (simp add: mult_right_mono)
      finally have "b \<le> a * 2 ^ (k + 1)" by (simp add: algebra_simps)
      with f kp show ?thesis by (simp add: e j nj not_le)
    qed
  qed
qed


section \<open>Properties\<close>

subsection \<open>A file that is not JSON\<close>

text \<open>
  C10. When the text of a file does not parse as JSON, \<^verbatim>\<open>parse_file_as_json\<close> returns
  with the per-run tree unchanged: the module is the one it was given except for the one
  warning added to the log, so no run, lane or sample is added or changed.
\<close>

theorem parse_failure_leaves_tree:
  assumes "loads (mf_f myfile) = None"
  shows "parse_file_as_json loads self myfile =
           self\<lparr>logged := logged self
                   @ [(WARNING, ''Could not parse file as json: '' @ mf_fn myfile)]\<rparr>
         \<and> bcl2fastq_data (parse_file_as_json loads self myfile) = bcl2fastq_data self"
  using assms by (simp add: parse_file_as_json_def)

theorem parse_failure_leaves_tree_witness:
  "(\<lambda>s. None :: report option) ''<html>'' = None
   \<and> parse_file_as_json (\<lambda>s. None)
         (new_module\<lparr>bcl2fastq_data := [(''RUN1'', [])]\<rparr>)
         \<lparr>mf_f = ''<html>'', mf_fn = ''Stats.json'', mf_root = ''run1''\<rparr> =
       new_module\<lparr>bcl2fastq_data := [(''RUN1'', [])],
                  logged := [(WARNING, ''Could not parse file as json: Stats.json'')]\<rparr>
   \<and> bcl2fastq_data
         (parse_file_as_json (\<lambda>s. None)
            (new_module\<lparr>bcl2fastq_data := [(''RUN1'', [])]\<rparr>)
            \<lparr>mf_f = ''<html>'', mf_fn = ''Stats.json'', mf_root = ''run1''\<rparr>) =
       [(''RUN1'', [])]"
  using parse_failure_leaves_tree [of "\<lambda>s. None"
      "\<lparr>mf_f = ''<html>'', mf_fn = ''Stats.json'', mf_root = ''run1''\<rparr>"
      "new_module\<lparr>bcl2fastq_data := [(''RUN1'', [])]\<rparr>"]
  by (simp add: new_module_def)

subsection \<open>The example of the specification\<close>

text \<open>
  C1. A single file whose document has RunId "RUN1" and one ConversionResults entry with
  LaneNumber 1, Undetermined.NumberReads 10 and one DemuxResults entry (SampleName "S1",
  NumberReads 100, IndexMetrics [{"MismatchCounts": {"0": 90}}]): ingestion and then reshape
  give exactly the by-lane key "RUN1 - L1" with total 100, perfectIndex 90, undetermined 10,
  and the by-sample keys "RUN1 - S1" with total 100, perfectIndex 90 and
  "RUN1 - undetermined" with total 10, perfectIndex 0.
\<close>

theorem example_end_to_end:
  assumes "loads (mf_f myfile) = Some example_report"
  shows "\<exists>st. split_data_by_lane_and_sample (ingest loads [myfile] new_module) = Inr st
           \<and> bcl2fastq_bylane st =
               [(''RUN1 - L1'', \<lparr>total_cnt = 100, perfectIndex = 90, undetermined = Some 10\<rparr>)]
           \<and> bcl2fastq_bysample st =
               [(''RUN1 - S1'', \<lparr>total_cnt = 100, perfectIndex = 90, undetermined = None\<rparr>),
                (''RUN1 - undetermined'',
                 \<lparr>total_cnt = 10, perfectIndex = 0, undetermined = None\<rparr>)]"
  using assms
  by (simp add: ingest_unfold split_unfold example_report_def str_int_1 Let_def)

theorem example_end_to_end_witness:
  "example_loads (mf_f example_file) = Some example_report
   \<and> (\<exists>st. split_data_by_lane_and_sample (ingest example_loads [example_file] new_module)
             = Inr st
           \<and> bcl2fastq_bylane st =
               [(''RUN1 - L1'', \<lparr>total_cnt = 100, perfectIndex = 90, undetermined = Some 10\<rparr>)]
           \<and> bcl2fastq_bysample st =
               [(''RUN1 - S1'', \<lparr>total_cnt = 100, perfectIndex = 90, undetermined = None\<rparr>),
                (''RUN1 - undetermined'',
                 \<lparr>total_cnt = 10, perfectIndex = 0, undetermined = None\<rparr>)])"
proof -
  have h: "example_loads (mf_f example_file) = Some example_report"
    by (simp add: example_loads_def example_file_def)
  from h example_end_to_end [of example_loads example_file] show ?thesis by simp
qed

subsection \<open>The by-lane view\<close>

text \<open>
  C2. For every ingested report and every lane in it, the by-lane record's total is the sum
  of NumberReads over the DemuxResults of that lane and nothing else: the undetermined read
  count of the lane is not part of the total, it is the separate field
  \<^verbatim>\<open>undetermined\<close> of the record. The lane is taken from the conversion result that
  was ingested last for its run and lane number (a later one would replace it).
\<close>

theorem bylane_total_is_sum_of_samples:
  assumes "files = before @ myfile # after"
    and "loads (mf_f myfile) = Some c"
    and "ConversionResults c = crs1 @ cr # crs2"
    and "LaneNumber cr \<notin> LaneNumber ` set crs2"
    and "\<forall>later \<in> set after. \<not> reports_lane loads later (RunId c) (LaneNumber cr)"
  shows "\<exists>st. split_data_by_lane_and_sample (ingest loads files new_module) = Inr st
           \<and> map_of (bcl2fastq_bylane st) (prepend_runid (RunId c) (lane_name cr)) =
               Some \<lparr>total_cnt = sum_list (map NumberReads (DemuxResults cr)),
                     perfectIndex =
                       sum_list (map (\<lambda>d. sum_list (map MismatchCounts_0 (IndexMetrics d)))
                                   (DemuxResults cr)),
                     undetermined = Some (Undetermined_NumberReads cr)\<rparr>"
proof -
  let ?t = "bcl2fastq_data (ingest loads files new_module)"
  have ok: "tree_ok ?t" by (simp add: tree_ok_ingest tree_ok_new_module)
  have "flat ?t (RunId c, lane_name cr) = Some (lane_record myfile cr)"
    unfolding flat_ingest_new using assms by (rule last_entry)
  with ok have "map_of (bylane_of ?t []) (prepend_runid (RunId c) (lane_name cr)) =
      Some (lane_agg (lane_record myfile cr))"
    by (rule bylane_lookup)
  then show ?thesis
    by (simp add: split_ingested lane_agg_lane_record)
qed

theorem bylane_total_is_sum_of_samples_witness:
  "\<exists>st. split_data_by_lane_and_sample (ingest two_loads [file_bad, file_a, file_b] new_module)
          = Inr st
        \<and> map_of (bcl2fastq_bylane st) ''RUN1 - L1'' =
            Some \<lparr>total_cnt = 150, perfectIndex = 135, undetermined = Some 10\<rparr>"
proof -
  let ?cr = "\<lparr>LaneNumber = 1, Undetermined_NumberReads = 10,
          DemuxResults =
            [\<lparr>SampleName = ''S1'', NumberReads = 100,
              IndexMetrics = [\<lparr>MismatchCounts_0 = 90\<rparr>]\<rparr>,
             \<lparr>SampleName = ''S2'', NumberReads = 50,
              IndexMetrics = [\<lparr>MismatchCounts_0 = 40\<rparr>, \<lparr>MismatchCounts_0 = 5\<rparr>]\<rparr>]\<rparr>"
  let ?cr2 = "\<lparr>LaneNumber = 2, Undetermined_NumberReads = 7, DemuxResults = []\<rparr>"
  have 1: "[file_bad, file_a, file_b] = [file_bad] @ file_a # [file_b]" by simp
  have 2: "two_loads (mf_f file_a) = Some two_lane_report"
    by (simp add: two_loads_def file_a_def)
  have 3: "ConversionResults two_lane_report = [] @ ?cr # [?cr2]"
    by (simp add: two_lane_report_def)
  have 4: "LaneNumber ?cr \<notin> LaneNumber ` set [?cr2]" by simp
  have 5: "\<forall>later \<in> set [file_b].
             \<not> reports_lane two_loads later (RunId two_lane_report) (LaneNumber ?cr)"
    by (simp add: reports_lane_def two_loads_def file_b_def other_report_def)
  from bylane_total_is_sum_of_samples [of "[file_bad, file_a, file_b]" "[file_bad]" file_a
      "[file_b]" two_loads two_lane_report "[]" ?cr "[?cr2]", OF 1 2 3 4 5]
  show ?thesis
    by (simp add: two_lane_report_def prepend_runid_def lane_name_def str_int_small)
qed

text \<open>
  C8. Every lane of the ingested tree, also one whose DemuxResults list is empty, has the
  synthetic entry "undetermined" in its samples mapping (with perfectIndex 0 and no file
  name), so the reshape step returns and its lookup of \<^verbatim>\<open>samples["undetermined"]\<close>
  raises no KeyError; and a lane with no DemuxResults gives the by-lane record with total 0,
  perfectIndex 0 and undetermined = Undetermined.NumberReads.
\<close>

theorem undetermined_entry_always_present:
  "(\<forall>r rd l lrec.
      map_of (bcl2fastq_data (ingest loads files new_module)) r = Some rd \<longrightarrow>
      map_of rd l = Some lrec \<longrightarrow>
      (\<exists>u. map_of (samples lrec) ''undetermined'' =
             Some \<lparr>total_cnt = u, perfectIndex = 0, filename = None\<rparr>))
   \<and> (\<exists>st. split_data_by_lane_and_sample (ingest loads files new_module) = Inr st)
   \<and> (\<forall>before myfile after c crs1 cr crs2.
        files = before @ myfile # after \<longrightarrow>
        loads (mf_f myfile) = Some c \<longrightarrow>
        ConversionResults c = crs1 @ cr # crs2 \<longrightarrow>
        LaneNumber cr \<notin> LaneNumber ` set crs2 \<longrightarrow>
        (\<forall>later \<in> set after. \<not> reports_lane loads later (RunId c) (LaneNumber cr)) \<longrightarrow>
        DemuxResults cr = [] \<longrightarrow>
        (\<exists>st. split_data_by_lane_and_sample (ingest loads files new_module) = Inr st
           \<and> map_of (bcl2fastq_bylane st) (prepend_runid (RunId c) (lane_name cr)) =
               Some \<lparr>total_cnt = 0, perfectIndex = 0,
                     undetermined = Some (Undetermined_NumberReads cr)\<rparr>))"
proof (intro conjI allI impI)
  fix r rd l lrec
  assume "map_of (bcl2fastq_data (ingest loads files new_module)) r = Some rd"
    and "map_of rd l = Some lrec"
  then obtain myfile cr where "lrec = lane_record myfile cr"
    using ingested_lane_is_record by blast
  then show "\<exists>u. map_of (samples lrec) ''undetermined'' =
               Some \<lparr>total_cnt = u, perfectIndex = 0, filename = None\<rparr>"
    by (simp add: samples_undetermined)
next
  show "\<exists>st. split_data_by_lane_and_sample (ingest loads files new_module) = Inr st"
    by (simp add: split_ingested)
next
  fix before myfile after c crs1 cr crs2
  assume h: "files = before @ myfile # after" "loads (mf_f myfile) = Some c"
    "ConversionResults c = crs1 @ cr # crs2" "LaneNumber cr \<notin> LaneNumber ` set crs2"
    "\<forall>later \<in> set after. \<not> reports_lane loads later (RunId c) (LaneNumber cr)"
    and e: "DemuxResults cr = []"
  from h have "map_of (bylane_of (bcl2fastq_data (ingest loads files new_module)) [])
           (prepend_runid (RunId c) (lane_name cr)) = Some (lane_agg (lane_record myfile cr))"
    by (rule bylane_of_last_entry)
  with e show "\<exists>st. split_data_by_lane_and_sample (ingest loads files new_module) = Inr st
           \<and> map_of (bcl2fastq_bylane st) (prepend_runid (RunId c) (lane_name cr)) =
               Some \<lparr>total_cnt = 0, perfectIndex = 0,
                     undetermined = Some (Undetermined_NumberReads cr)\<rparr>"
    by (simp add: split_ingested lane_agg_lane_record)
qed

theorem undetermined_entry_always_present_witness:
  "(\<exists>u. map_of (samples (lane_record file_a
              \<lparr>LaneNumber = 2, Undetermined_NumberReads = 7, DemuxResults = []\<rparr>))
            ''undetermined'' =
          Some \<lparr>total_cnt = u, perfectIndex = 0, filename = None\<rparr>)
   \<and> (\<exists>st. split_data_by_lane_and_sample (ingest two_loads [file_a, file_b] new_module)
              = Inr st
          \<and> map_of (bcl2fastq_bylane st) ''RUN1 - L2'' =
              Some \<lparr>total_cnt = 0, perfectIndex = 0, undetermined = Some 7\<rparr>)"
proof -
  let ?cr1 = "ConversionResults two_lane_report ! 0"
  let ?cr2 = "\<lparr>LaneNumber = 2, Undetermined_NumberReads = 7, DemuxResults = []\<rparr>"
  note inst = undetermined_entry_always_present [of two_loads "[file_a, file_b]"]
  have a: "map_of (bcl2fastq_data (ingest two_loads [file_a, file_b] new_module)) ''RUN1'' =
             Some [(''L1'', lane_record file_a ?cr1),
                   (''L2'', lane_record file_a ?cr2),
                   (''L3'', lane_record file_b (ConversionResults other_report ! 0))]"
    by (simp add: ingest_a_b) (simp add: two_lane_report_def)
  have 1: "\<exists>u. map_of (samples (lane_record file_a ?cr2)) ''undetermined'' =
          Some \<lparr>total_cnt = u, perfectIndex = 0, filename = None\<rparr>"
  proof -
    have l2: "map_of [(''L1'', lane_record file_a ?cr1), (''L2'', lane_record file_a ?cr2),
                   (''L3'', lane_record file_b (ConversionResults other_report ! 0))] ''L2'' =
              Some (lane_record file_a ?cr2)"
      by simp
    from inst a l2 show ?thesis by blast
  qed
  have f: "[file_a, file_b] = [] @ file_a # [file_b]" by simp
  have l: "two_loads (mf_f file_a) = Some two_lane_report"
    by (simp add: two_loads_def file_a_def)
  have c: "ConversionResults two_lane_report = [?cr1] @ ?cr2 # []"
    by (simp add: two_lane_report_def)
  have n: "LaneNumber ?cr2 \<notin> LaneNumber ` set []" by simp
  have p: "\<forall>later \<in> set [file_b].
             \<not> reports_lane two_loads later (RunId two_lane_report) (LaneNumber ?cr2)"
    by (simp add: reports_lane_def two_loads_def file_b_def other_report_def)
  have e: "DemuxResults ?cr2 = []" by simp
  have 2: "\<exists>st. split_data_by_lane_and_sample (ingest two_loads [file_a, file_b] new_module)
              = Inr st
          \<and> map_of (bcl2fastq_bylane st) ''RUN1 - L2'' =
              Some \<lparr>total_cnt = 0, perfectIndex = 0, undetermined = Some 7\<rparr>"
  proof -
    from inst f l c n p e
    have "\<exists>st. split_data_by_lane_and_sample (ingest two_loads [file_a, file_b] new_module)
              = Inr st
          \<and> map_of (bcl2fastq_bylane st)
               (prepend_runid (RunId two_lane_report) (lane_name ?cr2)) =
              Some \<lparr>total_cnt = 0, perfectIndex = 0,
                    undetermined = Some (Undetermined_NumberReads ?cr2)\<rparr>"
      by blast
    then show ?thesis
      by (simp add: two_lane_report_def prepend_runid_def lane_name_def str_int_small)
  qed
  from 1 2 show ?thesis by blast
qed

subsection \<open>Files that are not JSON, and lanes reported twice\<close>

text \<open>
  C7. A file whose text does not parse as JSON is skipped: a warning that names the file is
  logged, nothing is raised (\<^verbatim>\<open>parse_file_as_json\<close> returns the module), and the
  files after it are processed. What is aggregated is what the parseable files alone give:
  the module after all the files is the module after the parseable ones except for the log,
  and so is the result of the reshape.
\<close>

theorem unparseable_files_are_skipped:
  "(\<forall>myfile \<in> set files. loads (mf_f myfile) = None \<longrightarrow>
      (WARNING, ''Could not parse file as json: '' @ mf_fn myfile)
        \<in> set (logged (ingest loads files self)))
   \<and> ingest loads files self =
       (ingest loads (filter (\<lambda>myfile. loads (mf_f myfile) \<noteq> None) files) self)
         \<lparr>logged := logged (ingest loads files self)\<rparr>
   \<and> split_data_by_lane_and_sample (ingest loads files self) =
       (case split_data_by_lane_and_sample
               (ingest loads (filter (\<lambda>myfile. loads (mf_f myfile) \<noteq> None) files) self) of
          Inl e \<Rightarrow> Inl e
        | Inr st \<Rightarrow> Inr (st\<lparr>logged := logged (ingest loads files self)\<rparr>))"
proof -
  let ?all = "ingest loads files self"
  let ?ok = "ingest loads (filter (\<lambda>myfile. loads (mf_f myfile) \<noteq> None) files) self"
  have eq: "?all = ?ok\<lparr>logged := logged ?all\<rparr>"
    using ingest_parseable_only [of loads files self] by (rule module_restore_log)
  have "split_data_by_lane_and_sample ?all =
          split_data_by_lane_and_sample (?ok\<lparr>logged := logged ?all\<rparr>)"
    using eq by simp
  then have "split_data_by_lane_and_sample ?all =
       (case split_data_by_lane_and_sample ?ok of
          Inl e \<Rightarrow> Inl e | Inr st \<Rightarrow> Inr (st\<lparr>logged := logged ?all\<rparr>))"
    by (simp only: split_forgets_log)
  with eq parse_failure_warns [of _ files loads self] show ?thesis by blast
qed

theorem unparseable_files_are_skipped_witness:
  "(WARNING, ''Could not parse file as json: Stats.json'')
      \<in> set (logged (ingest two_loads [file_a, file_bad, file_b] new_module))
   \<and> bcl2fastq_data (ingest two_loads [file_a, file_bad, file_b] new_module) =
       bcl2fastq_data (ingest two_loads [file_a, file_b] new_module)"
proof -
  have f: "filter (\<lambda>myfile. two_loads (mf_f myfile) \<noteq> None) [file_a, file_bad, file_b]
             = [file_a, file_b]"
    by (simp add: two_loads_def file_a_def file_b_def file_bad_def)
  have b: "file_bad \<in> set [file_a, file_bad, file_b]" by simp
  have n: "two_loads (mf_f file_bad) = None"
    by (simp add: two_loads_def file_bad_def)
  note inst = unparseable_files_are_skipped [of "[file_a, file_bad, file_b]" two_loads new_module]
  from inst b n have 1: "(WARNING, ''Could not parse file as json: '' @ mf_fn file_bad)
      \<in> set (logged (ingest two_loads [file_a, file_bad, file_b] new_module))"
    by blast
  from inst have "ingest two_loads [file_a, file_bad, file_b] new_module =
       (ingest two_loads [file_a, file_b] new_module)
         \<lparr>logged := logged (ingest two_loads [file_a, file_bad, file_b] new_module)\<rparr>"
    by (simp only: f)
  then have "bcl2fastq_data (ingest two_loads [file_a, file_bad, file_b] new_module) =
       bcl2fastq_data ((ingest two_loads [file_a, file_b] new_module)
         \<lparr>logged := logged (ingest two_loads [file_a, file_bad, file_b] new_module)\<rparr>)"
    by simp
  with 1 show ?thesis by (simp add: file_bad_def)
qed

text \<open>
  C4. When a conversion result with the run id and lane number of one ingested before it is
  ingested (before it in the same file, or in a file read earlier), it replaces the lane
  record of the tree: after the file, the record of that run and lane is the one built from
  the later entry alone, with its total, its perfectIndex and its samples mapping, and the
  log has the diagnostic that names the qualified key of the run and lane.
\<close>

theorem duplicate_lane_last_write_wins:
  assumes "loads (mf_f myfile) = Some c"
    and "ConversionResults c = crs1 @ cr # crs2"
    and "LaneNumber cr \<notin> LaneNumber ` set crs2"
    and "LaneNumber cr \<in> LaneNumber ` set crs1
         \<or> (\<exists>earlier \<in> set files. reports_lane loads earlier (RunId c) (LaneNumber cr))"
  shows "\<exists>rd. map_of (bcl2fastq_data (parse_file_as_json loads (ingest loads files self) myfile))
                (RunId c) = Some rd
           \<and> map_of rd (lane_name cr) = Some (lane_record myfile cr)
           \<and> lane_record myfile cr =
               \<lparr>total_cnt = sum_list (map NumberReads (DemuxResults cr)),
                perfectIndex =
                  sum_list (map (\<lambda>d. sum_list (map MismatchCounts_0 (IndexMetrics d)))
                              (DemuxResults cr)),
                samples =
                  AList.update ''undetermined''
                    \<lparr>total_cnt = Undetermined_NumberReads cr, perfectIndex = 0,
                     filename = None\<rparr>
                    (fold (\<lambda>d. AList.update (SampleName d)
                                 \<lparr>total_cnt = NumberReads d,
                                  perfectIndex = sum_list (map MismatchCounts_0 (IndexMetrics d)),
                                  filename = Some (path_join (mf_root myfile) (mf_fn myfile))\<rparr>)
                       (DemuxResults cr) [])\<rparr>
           \<and> (DEBUG, ''Duplicate runId/lane combination found! Overwriting: ''
                        @ prepend_runid (RunId c) (lane_name cr))
               \<in> set (logged (parse_file_as_json loads (ingest loads files self) myfile))"
proof -
  let ?st = "ingest loads files self"
  let ?old = "case map_of (bcl2fastq_data ?st) (RunId c) of Some rd \<Rightarrow> rd | None \<Rightarrow> []"
  let ?new = "fold (set_lane myfile) (ConversionResults c) ?old"
  have data: "map_of (bcl2fastq_data (parse_file_as_json loads ?st myfile)) (RunId c) = Some ?new"
    using assms(1) by (simp add: parse_file_data update_conv')
  have rec: "map_of ?new (lane_name cr) = Some (lane_record myfile cr)"
    using assms(2,3) by (rule set_lane_last)
  have pres: "map_of ?old (lane_name cr) \<noteq> None \<or> lane_name cr \<in> lane_name ` set crs1"
  proof (cases "LaneNumber cr \<in> LaneNumber ` set crs1")
    case True
    then show ?thesis by (simp add: lane_name_image)
  next
    case False
    with assms(4) obtain earlier where "earlier \<in> set files"
        "reports_lane loads earlier (RunId c) (LaneNumber cr)"
      by blast
    then have "flat (bcl2fastq_data ?st) (RunId c, lane_name cr) \<noteq> None"
      unfolding lane_name_def by (rule earlier_file_present)
    then show ?thesis by (simp add: flat_def split: option.splits)
  qed
  have "duplicate_message (RunId c) (lane_name cr)
          \<in> set (logged (parse_file_as_json loads ?st myfile))"
    unfolding parse_file_logged [of loads myfile c, OF assms(1)]
    using assms(2) pres by (rule duplicate_logged)
  moreover have "lane_record myfile cr =
               \<lparr>total_cnt = sum_list (map NumberReads (DemuxResults cr)),
                perfectIndex =
                  sum_list (map (\<lambda>d. sum_list (map MismatchCounts_0 (IndexMetrics d)))
                              (DemuxResults cr)),
                samples =
                  AList.update ''undetermined''
                    \<lparr>total_cnt = Undetermined_NumberReads cr, perfectIndex = 0,
                     filename = None\<rparr>
                    (fold (\<lambda>d. AList.update (SampleName d)
                                 \<lparr>total_cnt = NumberReads d,
                                  perfectIndex = sum_list (map MismatchCounts_0 (IndexMetrics d)),
                                  filename = Some (path_join (mf_root myfile) (mf_fn myfile))\<rparr>)
                       (DemuxResults cr) [])\<rparr>"
    by (simp add: lane_record_eq undetermined_of_def fold_set_sample sample_of_def)
  ultimately show ?thesis
    using data rec by (simp add: duplicate_message_def)
qed

theorem duplicate_lane_last_write_wins_witness:
  "\<exists>rd. map_of (bcl2fastq_data
                  (parse_file_as_json two_loads (ingest two_loads [file_a] new_module) file_dup))
            ''RUN1'' = Some rd
        \<and> map_of rd ''L1'' =
            Some \<lparr>total_cnt = 60, perfectIndex = 50,
                  samples =
                    [(''S1'', \<lparr>total_cnt = 60, perfectIndex = 50,
                               filename = Some ''run1/d/Stats.json''\<rparr>),
                     (''undetermined'',
                      \<lparr>total_cnt = 2, perfectIndex = 0, filename = None\<rparr>)]\<rparr>
        \<and> (DEBUG, ''Duplicate runId/lane combination found! Overwriting: RUN1 - L1'')
            \<in> set (logged
                     (parse_file_as_json two_loads (ingest two_loads [file_a] new_module)
                        file_dup))"
proof -
  let ?cr1 = "\<lparr>LaneNumber = 1, Undetermined_NumberReads = 3,
          DemuxResults =
            [\<lparr>SampleName = ''S9'', NumberReads = 8,
              IndexMetrics = [\<lparr>MismatchCounts_0 = 6\<rparr>]\<rparr>]\<rparr>"
  let ?cr2 = "\<lparr>LaneNumber = 1, Undetermined_NumberReads = 2,
          DemuxResults =
            [\<lparr>SampleName = ''S1'', NumberReads = 60,
              IndexMetrics = [\<lparr>MismatchCounts_0 = 50\<rparr>]\<rparr>]\<rparr>"
  have l: "two_loads (mf_f file_dup) = Some dup_report"
    by (simp add: two_loads_def file_dup_def)
  have c: "ConversionResults dup_report = [?cr1] @ ?cr2 # []"
    by (simp add: dup_report_def)
  have n: "LaneNumber ?cr2 \<notin> LaneNumber ` set []" by simp
  have e: "LaneNumber ?cr2 \<in> LaneNumber ` set [?cr1]
         \<or> (\<exists>earlier \<in> set [file_a].
               reports_lane two_loads earlier (RunId dup_report) (LaneNumber ?cr2))"
    by simp
  have r: "lane_record file_dup ?cr2 =
             \<lparr>total_cnt = 60, perfectIndex = 50,
                  samples =
                    [(''S1'', \<lparr>total_cnt = 60, perfectIndex = 50,
                               filename = Some ''run1/d/Stats.json''\<rparr>),
                     (''undetermined'',
                      \<lparr>total_cnt = 2, perfectIndex = 0, filename = None\<rparr>)]\<rparr>"
    by (simp add: lane_record_def demux_step_def index_step_def file_dup_def path_join_def
        Let_def)
  from duplicate_lane_last_write_wins [of two_loads file_dup dup_report "[?cr1]" ?cr2 "[]"
      "[file_a]" new_module, OF l c n e]
  show ?thesis
    by (simp only: r) (auto simp add: dup_report_def prepend_runid_def lane_name_def str_int_small)
qed

subsection \<open>The by-sample view\<close>

text \<open>
  C3. Two files of the same run that report distinct lane numbers: for a sample name that
  is in the samples mapping of a lane of each file, the by-sample record under
  "<RunId> - <sampleName>" has as total and as perfectIndex the sums, over the lanes of the
  two files, of what the lane holds for that sample (nothing for a lane without it).
\<close>

theorem bysample_sums_over_lanes:
  assumes "loads (mf_f file1) = Some c1" "loads (mf_f file2) = Some c2"
    and "RunId c1 = RunId c2"
    and "distinct (map LaneNumber (ConversionResults c1 @ ConversionResults c2))"
    and "cr1 \<in> set (ConversionResults c1)" "cr2 \<in> set (ConversionResults c2)"
    and "s \<in> fst ` set (samples (lane_record file1 cr1))"
    and "s \<in> fst ` set (samples (lane_record file2 cr2))"
  shows "\<exists>st. split_data_by_lane_and_sample (ingest loads [file1, file2] new_module) = Inr st
           \<and> map_of (bcl2fastq_bysample st) (prepend_runid (RunId c1) s) =
               Some \<lparr>total_cnt =
                       sum_list (map (\<lambda>cr. sample_count total_cnt (lane_record file1 cr) s)
                                   (ConversionResults c1))
                       + sum_list (map (\<lambda>cr. sample_count total_cnt (lane_record file2 cr) s)
                                     (ConversionResults c2)),
                     perfectIndex =
                       sum_list (map (\<lambda>cr. sample_count perfectIndex (lane_record file1 cr) s)
                                   (ConversionResults c1))
                       + sum_list (map (\<lambda>cr. sample_count perfectIndex (lane_record file2 cr) s)
                                     (ConversionResults c2)),
                     undetermined = None\<rparr>"
proof -
  let ?rd = "map (\<lambda>cr. (lane_name cr, lane_record file1 cr)) (ConversionResults c1)
             @ map (\<lambda>cr. (lane_name cr, lane_record file2 cr)) (ConversionResults c2)"
  have t: "bcl2fastq_data (ingest loads [file1, file2] new_module) = [(RunId c1, ?rd)]"
    using assms(1-4) by (rule ingest_two_files)
  have d: "\<forall>e \<in> set ?rd. distinct (map fst (samples (snd e)))"
    by (auto simp: lane_record_distinct)
  have "(lane_name cr1, lane_record file1 cr1) \<in> set ?rd" using assms(5) by auto
  with assms(7) have k: "prepend_runid (RunId c1) s \<in> key_of ` set (contribs [(RunId c1, ?rd)])"
    unfolding key_single_run by force
  have "map_of (bysample_of [(RunId c1, ?rd)] []) (prepend_runid (RunId c1) s) =
          Some \<lparr>total_cnt = sum_list (map (\<lambda>e. sample_count total_cnt (snd e) s) ?rd),
                perfectIndex = sum_list (map (\<lambda>e. sample_count perfectIndex (snd e) s) ?rd),
                undetermined = None\<rparr>"
    using k by (simp add: bysample_of_lookup sum_for_single_run [OF d])
  then show ?thesis
    by (simp add: split_ingested t comp_def)
qed

theorem bysample_sums_over_lanes_witness:
  "\<exists>st. split_data_by_lane_and_sample (ingest two_loads [file_a, file_b] new_module) = Inr st
        \<and> map_of (bcl2fastq_bysample st) ''RUN1 - S1'' =
            Some \<lparr>total_cnt = 130, perfectIndex = 110, undetermined = None\<rparr>"
proof -
  let ?cr1 = "\<lparr>LaneNumber = 1, Undetermined_NumberReads = 10,
          DemuxResults =
            [\<lparr>SampleName = ''S1'', NumberReads = 100,
              IndexMetrics = [\<lparr>MismatchCounts_0 = 90\<rparr>]\<rparr>,
             \<lparr>SampleName = ''S2'', NumberReads = 50,
              IndexMetrics = [\<lparr>MismatchCounts_0 = 40\<rparr>, \<lparr>MismatchCounts_0 = 5\<rparr>]\<rparr>]\<rparr>"
  let ?cr3 = "\<lparr>LaneNumber = 3, Undetermined_NumberReads = 4,
          DemuxResults =
            [\<lparr>SampleName = ''S1'', NumberReads = 30,
              IndexMetrics = [\<lparr>MismatchCounts_0 = 20\<rparr>]\<rparr>]\<rparr>"
  have 1: "two_loads (mf_f file_a) = Some two_lane_report"
    by (simp add: two_loads_def file_a_def)
  have 2: "two_loads (mf_f file_b) = Some other_report"
    by (simp add: two_loads_def file_b_def)
  have 3: "RunId two_lane_report = RunId other_report"
    by (simp add: two_lane_report_def other_report_def)
  have 4: "distinct (map LaneNumber
             (ConversionResults two_lane_report @ ConversionResults other_report))"
    by (simp add: two_lane_report_def other_report_def)
  have 5: "?cr1 \<in> set (ConversionResults two_lane_report)"
    by (simp add: two_lane_report_def)
  have 6: "?cr3 \<in> set (ConversionResults other_report)"
    by (simp add: other_report_def)
  have 7: "''S1'' \<in> fst ` set (samples (lane_record file_a ?cr1))"
    by (simp add: lane_record_def demux_step_def index_step_def Let_def)
  have 8: "''S1'' \<in> fst ` set (samples (lane_record file_b ?cr3))"
    by (simp add: lane_record_def demux_step_def index_step_def Let_def)
  from bysample_sums_over_lanes [of two_loads file_a two_lane_report file_b other_report
      ?cr1 ?cr3 "''S1''", OF 1 2 3 4 5 6 7 8]
  show ?thesis
    by (simp add: two_lane_report_def other_report_def prepend_runid_def sample_count_def
        lane_record_def demux_step_def index_step_def Let_def)
qed

subsection \<open>A sample named undetermined\<close>

text \<open>
  C9. A file is ingested whose report has distinct lane numbers, and one lane of
  it has a DemuxResults entry named "undetermined" among samples of distinct names. Then
  the NumberReads and the zero-mismatch counts of that entry are part of the total and the
  perfectIndex of the lane; the entry "undetermined" of the samples mapping is the
  synthetic one, with total Undetermined.NumberReads and perfectIndex 0; the by-sample
  record "<RunId> - undetermined" sums the synthetic entries of the lanes only and the
  source-file index has no such key; and the lane total is the sum of the totals of the
  other entries of the samples mapping plus the NumberReads of that entry (with the
  synthetic entry counted too: lane total + Undetermined.NumberReads = sum of all the
  per-sample totals + that NumberReads). So the lane total differs from the sum only when
  that NumberReads is not 0 (not Undetermined.NumberReads, with the synthetic entry).
\<close>

theorem shadowed_undetermined_sample:
  assumes "loads (mf_f myfile) = Some c"
    and "distinct (map LaneNumber (ConversionResults c))"
    and "cr \<in> set (ConversionResults c)"
    and "d \<in> set (DemuxResults cr)" "SampleName d = ''undetermined''"
    and "distinct (map SampleName (DemuxResults cr))"
  shows "\<exists>st rd lrec.
           split_data_by_lane_and_sample (ingest loads [myfile] new_module) = Inr st
           \<and> map_of (bcl2fastq_data st) (RunId c) = Some rd
           \<and> map_of rd (lane_name cr) = Some lrec
           \<and> total_cnt lrec =
               NumberReads d + sum_list (map NumberReads (remove1 d (DemuxResults cr)))
           \<and> perfectIndex lrec =
               sum_list (map MismatchCounts_0 (IndexMetrics d))
               + sum_list (map (\<lambda>x. sum_list (map MismatchCounts_0 (IndexMetrics x)))
                             (remove1 d (DemuxResults cr)))
           \<and> map_of (samples lrec) ''undetermined'' =
               Some \<lparr>total_cnt = Undetermined_NumberReads cr, perfectIndex = 0,
                     filename = None\<rparr>
           \<and> map_of (bcl2fastq_bysample st) (prepend_runid (RunId c) ''undetermined'') =
               Some \<lparr>total_cnt = sum_list (map Undetermined_NumberReads (ConversionResults c)),
                     perfectIndex = 0, undetermined = None\<rparr>
           \<and> map_of (source_files st) (prepend_runid (RunId c) ''undetermined'') = None
           \<and> total_cnt lrec = other_samples_total lrec + NumberReads d
           \<and> total_cnt lrec + Undetermined_NumberReads cr = samples_total lrec + NumberReads d"
proof -
  let ?rd = "map (\<lambda>cr. (lane_name cr, lane_record myfile cr)) (ConversionResults c)"
  let ?lrec = "lane_record myfile cr"
  have t: "bcl2fastq_data (ingest loads [myfile] new_module) = [(RunId c, ?rd)]"
    using assms(1,2) by (rule ingest_one_file)
  have l: "map_of ?rd (lane_name cr) = Some ?lrec"
    using assms(2,3) by (rule map_of_lane_entries)
  have tot: "total_cnt ?lrec =
               NumberReads d + sum_list (map NumberReads (remove1 d (DemuxResults cr)))"
    using assms(4) by (simp add: lane_record_eq sum_list_map_remove1)
  have pi: "perfectIndex ?lrec =
               sum_list (map MismatchCounts_0 (IndexMetrics d))
               + sum_list (map (\<lambda>x. sum_list (map MismatchCounts_0 (IndexMetrics x)))
                             (remove1 d (DemuxResults cr)))"
    using assms(4) by (simp add: lane_record_eq sum_list_map_remove1)
  have ne: "ConversionResults c \<noteq> []" using assms(3) by auto
  have bs: "map_of (bysample_of [(RunId c, ?rd)] []) (prepend_runid (RunId c) ''undetermined'') =
               Some \<lparr>total_cnt = sum_list (map Undetermined_NumberReads (ConversionResults c)),
                     perfectIndex = 0, undetermined = None\<rparr>"
    using ne by (rule bysample_undetermined_single_run)
  have sf: "map_of (sources_of [(RunId c, ?rd)] []) (prepend_runid (RunId c) ''undetermined'')
              = None"
    by (rule sources_no_undetermined)
  have d1: "total_cnt ?lrec = other_samples_total ?lrec + NumberReads d"
    using assms(6,4,5) by (rule lane_total_with_shadowed)
  have d2: "total_cnt ?lrec + Undetermined_NumberReads cr = samples_total ?lrec + NumberReads d"
    using d1 by (simp add: samples_total_eq)
  have u: "map_of (samples ?lrec) ''undetermined'' =
               Some \<lparr>total_cnt = Undetermined_NumberReads cr, perfectIndex = 0,
                     filename = None\<rparr>"
    by (rule samples_undetermined)
  let ?st = "(ingest loads [myfile] new_module)
            \<lparr>bcl2fastq_bylane := bylane_of [(RunId c, ?rd)] [],
             bcl2fastq_bysample := bysample_of [(RunId c, ?rd)] [],
             source_files := sources_of [(RunId c, ?rd)] []\<rparr>"
  have s: "split_data_by_lane_and_sample (ingest loads [myfile] new_module) = Inr ?st"
    by (simp add: split_ingested t)
  have "map_of (bcl2fastq_data ?st) (RunId c) = Some ?rd" by (simp add: t)
  moreover have "map_of (bcl2fastq_bysample ?st) (prepend_runid (RunId c) ''undetermined'') =
               Some \<lparr>total_cnt = sum_list (map Undetermined_NumberReads (ConversionResults c)),
                     perfectIndex = 0, undetermined = None\<rparr>"
    using bs by simp
  moreover have "map_of (source_files ?st) (prepend_runid (RunId c) ''undetermined'') = None"
    using sf by simp
  ultimately show ?thesis
    using s l tot pi u d1 d2 by blast
qed

theorem shadowed_undetermined_sample_witness:
  "\<exists>st rd lrec.
     split_data_by_lane_and_sample (ingest shadow_loads [file_shadow] new_module) = Inr st
     \<and> map_of (bcl2fastq_data st) ''RUN1'' = Some rd
     \<and> map_of rd ''L1'' = Some lrec
     \<and> total_cnt lrec = 125
     \<and> perfectIndex lrec = 110
     \<and> map_of (samples lrec) ''undetermined'' =
         Some \<lparr>total_cnt = 10, perfectIndex = 0, filename = None\<rparr>
     \<and> map_of (bcl2fastq_bysample st) ''RUN1 - undetermined'' =
         Some \<lparr>total_cnt = 10, perfectIndex = 0, undetermined = None\<rparr>
     \<and> map_of (source_files st) ''RUN1 - undetermined'' = None
     \<and> total_cnt lrec = other_samples_total lrec + 25
     \<and> total_cnt lrec + 10 = samples_total lrec + 25"
proof -
  let ?d1 = "\<lparr>SampleName = ''S1'', NumberReads = 100,
              IndexMetrics = [\<lparr>MismatchCounts_0 = 90\<rparr>]\<rparr>"
  let ?d = "\<lparr>SampleName = ''undetermined'', NumberReads = 25,
              IndexMetrics = [\<lparr>MismatchCounts_0 = 20\<rparr>]\<rparr>"
  let ?cr = "\<lparr>LaneNumber = 1, Undetermined_NumberReads = 10, DemuxResults = [?d1, ?d]\<rparr>"
  have 1: "shadow_loads (mf_f file_shadow) = Some shadow_report"
    by (simp add: shadow_loads_def file_shadow_def)
  have 2: "distinct (map LaneNumber (ConversionResults shadow_report))"
    by (simp add: shadow_report_def)
  have 3: "?cr \<in> set (ConversionResults shadow_report)"
    by (simp add: shadow_report_def)
  have 4: "?d \<in> set (DemuxResults ?cr)" by simp
  have 5: "SampleName ?d = ''undetermined''" by simp
  have 6: "distinct (map SampleName (DemuxResults ?cr))" by simp
  from shadowed_undetermined_sample [of shadow_loads file_shadow shadow_report ?cr ?d,
      OF 1 2 3 4 5 6]
  show ?thesis
    by (simp add: shadow_report_def prepend_runid_def lane_name_def str_int_small)
qed

text \<open>
  The lane total can still equal the sum of the per-sample totals of the samples mapping:
  here the entry named "undetermined" has NumberReads 0 (and Undetermined.NumberReads is 0),
  and the lane total 100 is the sum over the mapping, with or without the synthetic entry.
\<close>

theorem shadowed_sample_counterexample:
  "bcl2fastq_data (ingest shadow_loads [file_zero] new_module) = [(''RUN1'', [(''L1'', zero_lane)])]
   \<and> total_cnt zero_lane = samples_total zero_lane
   \<and> total_cnt zero_lane = other_samples_total zero_lane"
  by (simp add: ingest_unfold shadow_loads_def file_zero_def zero_shadow_report_def
      zero_lane_def samples_total_def other_samples_total_def path_join_def str_int_small
      Let_def)

subsection \<open>Nothing to report\<close>

text \<open>
  C6. The two mappings are the by-lane and by-sample mappings of the reshape after the
  host's filter. If both are empty, the constructor ends with UserWarning, the signal for
  "nothing to report", and has produced no section, no general-statistics columns, no
  data file and no data source. If one of them is not empty, UserWarning is not raised and
  the data sources are registered; then, when every retained by-sample record has a total
  other than 0 and counts that fit a float, the constructor returns having produced the
  general-statistics columns, the two data files and the two sections; when one does not,
  it ends with ZeroDivisionError or OverflowError and no columns, data files or sections.
\<close>

theorem nothing_to_report:
  "\<exists>st0. split_data_by_lane_and_sample (ingest (env_loads env) files new_module) = Inr st0
     \<and> bcl2fastq_bylane (snd (init env files)) = env_ignore_samples env (bcl2fastq_bylane st0)
     \<and> bcl2fastq_bysample (snd (init env files)) =
         env_ignore_samples env (bcl2fastq_bysample st0)
     \<and> (bcl2fastq_bylane (snd (init env files)) = []
          \<and> bcl2fastq_bysample (snd (init env files)) = [] \<longrightarrow>
        fst (init env files) = Some UserWarning
        \<and> sections (snd (init env files)) = []
        \<and> general_stats (snd (init env files)) = []
        \<and> data_files (snd (init env files)) = []
        \<and> data_sources (snd (init env files)) = [])
     \<and> (\<not> (bcl2fastq_bylane (snd (init env files)) = []
             \<and> bcl2fastq_bysample (snd (init env files)) = []) \<longrightarrow>
        fst (init env files) \<noteq> Some UserWarning
        \<and> data_sources (snd (init env files)) =
            map (\<lambda>e. (fst e, set (snd e))) (source_files (snd (init env files)))
        \<and> (stats_ok (bcl2fastq_bysample (snd (init env files))) \<longrightarrow>
            fst (init env files) = None
            \<and> general_stats (snd (init env files)) =
                [(map stats_row_of
                    (bcl2fastq_bysample (snd (init env files))),
                  general_stats_headers env)]
            \<and> data_files (snd (init env files)) =
                [(''multiqc_bcl2fastq_bylane'', bcl2fastq_bylane (snd (init env files))),
                 (''multiqc_bcl2fastq_bysample'', bcl2fastq_bysample (snd (init env files)))]
            \<and> sections (snd (init env files)) =
                [section_bylane (snd (init env files)),
                 section_bysample (snd (init env files))])
        \<and> (\<not> stats_ok (bcl2fastq_bysample (snd (init env files))) \<longrightarrow>
            (fst (init env files) = Some ZeroDivisionError
             \<or> fst (init env files) = Some OverflowError)
            \<and> general_stats (snd (init env files)) = []
            \<and> data_files (snd (init env files)) = []
            \<and> sections (snd (init env files)) = []))"
proof -
  let ?m = "filtered_module env files"
  let ?r = "init env files"
  let ?empty = "bcl2fastq_bylane ?m = [] \<and> bcl2fastq_bysample ?m = []"
  obtain st0 where st0:
      "split_data_by_lane_and_sample (ingest (env_loads env) files new_module) = Inr st0"
      "bcl2fastq_bylane ?m = env_ignore_samples env (bcl2fastq_bylane st0)"
      "bcl2fastq_bysample ?m = env_ignore_samples env (bcl2fastq_bysample st0)"
    using filtered_module_views [of env files] by blast
  have views: "bcl2fastq_bylane (snd ?r) = bcl2fastq_bylane ?m
               \<and> bcl2fastq_bysample (snd ?r) = bcl2fastq_bysample ?m
               \<and> source_files (snd ?r) = source_files ?m"
  proof (cases ?empty)
    case True
    show ?thesis by (simp only: init_ingested if_P [OF True]) simp
  next
    case False
    show ?thesis
    proof (cases "stats_ok (bcl2fastq_bysample ?m)")
      case True
      show ?thesis
        by (simp only: init_ingested if_not_P [OF False] report_outputs_ok [OF True]) simp
    next
      case nok: False
      from report_outputs_fail [OF nok, of env] show ?thesis
        by (simp only: init_ingested if_not_P [OF False]) simp
    qed
  qed
  have empty: "?empty \<longrightarrow>
        fst ?r = Some UserWarning \<and> sections (snd ?r) = [] \<and> general_stats (snd ?r) = []
        \<and> data_files (snd ?r) = [] \<and> data_sources (snd ?r) = []"
  proof
    assume e: ?empty
    show "fst ?r = Some UserWarning \<and> sections (snd ?r) = [] \<and> general_stats (snd ?r) = []
        \<and> data_files (snd ?r) = [] \<and> data_sources (snd ?r) = []"
      by (simp only: init_ingested if_P [OF e]) (simp add: filtered_module_fields)
  qed
  have good: "\<not> ?empty \<longrightarrow> stats_ok (bcl2fastq_bysample ?m) \<longrightarrow>
        fst ?r = None
        \<and> data_sources (snd ?r) = map (\<lambda>e. (fst e, set (snd e))) (source_files ?m)
        \<and> general_stats (snd ?r) =
            [(map stats_row_of (bcl2fastq_bysample ?m),
              general_stats_headers env)]
        \<and> data_files (snd ?r) =
            [(''multiqc_bcl2fastq_bylane'', bcl2fastq_bylane ?m),
             (''multiqc_bcl2fastq_bysample'', bcl2fastq_bysample ?m)]
        \<and> sections (snd ?r) = [section_bylane ?m, section_bysample ?m]"
  proof (intro impI)
    assume ne: "\<not> ?empty" and ok: "stats_ok (bcl2fastq_bysample ?m)"
    show "fst ?r = None
        \<and> data_sources (snd ?r) = map (\<lambda>e. (fst e, set (snd e))) (source_files ?m)
        \<and> general_stats (snd ?r) =
            [(map stats_row_of (bcl2fastq_bysample ?m),
              general_stats_headers env)]
        \<and> data_files (snd ?r) =
            [(''multiqc_bcl2fastq_bylane'', bcl2fastq_bylane ?m),
             (''multiqc_bcl2fastq_bysample'', bcl2fastq_bysample ?m)]
        \<and> sections (snd ?r) = [section_bylane ?m, section_bysample ?m]"
      by (simp only: init_ingested if_not_P [OF ne] report_outputs_ok [OF ok])
         (simp add: filtered_module_fields)
  qed
  have bad: "\<not> ?empty \<longrightarrow> \<not> stats_ok (bcl2fastq_bysample ?m) \<longrightarrow>
        (fst ?r = Some ZeroDivisionError \<or> fst ?r = Some OverflowError)
        \<and> data_sources (snd ?r) = map (\<lambda>e. (fst e, set (snd e))) (source_files ?m)
        \<and> general_stats (snd ?r) = [] \<and> data_files (snd ?r) = [] \<and> sections (snd ?r) = []"
  proof (intro impI)
    assume ne: "\<not> ?empty" and nok: "\<not> stats_ok (bcl2fastq_bysample ?m)"
    from report_outputs_fail [OF nok, of env]
    show "(fst ?r = Some ZeroDivisionError \<or> fst ?r = Some OverflowError)
        \<and> data_sources (snd ?r) = map (\<lambda>e. (fst e, set (snd e))) (source_files ?m)
        \<and> general_stats (snd ?r) = [] \<and> data_files (snd ?r) = [] \<and> sections (snd ?r) = []"
      by (simp only: init_ingested if_not_P [OF ne]) (simp add: filtered_module_fields)
  qed
  have secs: "section_bylane (snd ?r) = section_bylane ?m"
             "section_bysample (snd ?r) = section_bysample ?m"
    using views by (auto intro: section_same_views)
  have nw: "\<not> ?empty \<longrightarrow> fst ?r \<noteq> Some UserWarning"
    using good bad by (cases "stats_ok (bcl2fastq_bysample ?m)") auto
  have src: "\<not> ?empty \<longrightarrow>
      data_sources (snd ?r) = map (\<lambda>e. (fst e, set (snd e))) (source_files ?m)"
    using good bad by (cases "stats_ok (bcl2fastq_bysample ?m)") blast+
  show ?thesis
    apply (rule exI [of _ st0])
    apply (simp only: views secs)
    using st0 empty good bad nw src
    apply blast
    done
qed

theorem nothing_to_report_witness:
  "(fst (init example_env []) = Some UserWarning
    \<and> sections (snd (init example_env [])) = []
    \<and> general_stats (snd (init example_env [])) = []
    \<and> data_files (snd (init example_env [])) = []
    \<and> data_sources (snd (init example_env [])) = [])
   \<and> (fst (init example_env [example_file]) = None
      \<and> general_stats (snd (init example_env [example_file])) =
          [([(''RUN1 - S1'', \<lparr>row_total = 100, perfectPercent = ''90.0''\<rparr>),
             (''RUN1 - undetermined'', \<lparr>row_total = 10, perfectPercent = ''0.0''\<rparr>)],
            general_stats_headers example_env)]
      \<and> sections (snd (init example_env [example_file])) =
          [section_bylane (snd (init example_env [example_file])),
           section_bysample (snd (init example_env [example_file]))])
   \<and> ((fst (init example_env [file_clean]) = Some ZeroDivisionError
        \<or> fst (init example_env [file_clean]) = Some OverflowError)
      \<and> sections (snd (init example_env [file_clean])) = [])"
proof -
  have 1: "fst (init example_env []) = Some UserWarning
    \<and> sections (snd (init example_env [])) = []
    \<and> general_stats (snd (init example_env [])) = []
    \<and> data_files (snd (init example_env [])) = []
    \<and> data_sources (snd (init example_env [])) = []"
    using nothing_to_report [of example_env "[]"] init_none_views by blast
  have ok: "stats_ok (bcl2fastq_bysample (snd (init example_env [example_file])))"
    by (simp add: init_example_views stats_ok_def fits_float_def)
  have ne: "\<not> (bcl2fastq_bylane (snd (init example_env [example_file])) = []
              \<and> bcl2fastq_bysample (snd (init example_env [example_file])) = [])"
    by (simp add: init_example_views)
  have "fst (init example_env [example_file]) = None
      \<and> general_stats (snd (init example_env [example_file])) =
          [(map stats_row_of
              (bcl2fastq_bysample (snd (init example_env [example_file]))),
            general_stats_headers example_env)]
      \<and> sections (snd (init example_env [example_file])) =
          [section_bylane (snd (init example_env [example_file])),
           section_bysample (snd (init example_env [example_file]))]"
    using nothing_to_report [of example_env "[example_file]"] ok ne by blast
  then have 2: "fst (init example_env [example_file]) = None
      \<and> general_stats (snd (init example_env [example_file])) =
          [([(''RUN1 - S1'', \<lparr>row_total = 100, perfectPercent = ''90.0''\<rparr>),
             (''RUN1 - undetermined'', \<lparr>row_total = 10, perfectPercent = ''0.0''\<rparr>)],
            general_stats_headers example_env)]
      \<and> sections (snd (init example_env [example_file])) =
          [section_bylane (snd (init example_env [example_file])),
           section_bysample (snd (init example_env [example_file]))]"
    by (simp add: init_example_views stats_row_of_def format_percent_examples)
  have nok: "\<not> stats_ok (bcl2fastq_bysample (snd (init example_env [file_clean])))"
    by (simp add: init_clean_views stats_ok_def)
  have ne2: "\<not> (bcl2fastq_bylane (snd (init example_env [file_clean])) = []
              \<and> bcl2fastq_bysample (snd (init example_env [file_clean])) = [])"
    by (simp add: init_clean_views)
  have 3: "(fst (init example_env [file_clean]) = Some ZeroDivisionError
        \<or> fst (init example_env [file_clean]) = Some OverflowError)
      \<and> sections (snd (init example_env [file_clean])) = []"
    using nothing_to_report [of example_env "[file_clean]"] nok ne2 by blast
  from 1 2 3 show ?thesis by blast
qed

text \<open>
  A mapping that is not empty does not lead to the outputs in every case: one lane with the
  sample "S1" (100 reads) and no undetermined reads gives the by-sample record
  "RUN1 - undetermined" with total 0, the percentage raises ZeroDivisionError, and no
  general-statistics columns, data files or sections are produced.
\<close>

theorem nothing_to_report_counterexample:
  "bcl2fastq_bysample (snd (init example_env [file_clean])) \<noteq> []
   \<and> fst (init example_env [file_clean]) = Some ZeroDivisionError
   \<and> general_stats (snd (init example_env [file_clean])) = []
   \<and> data_files (snd (init example_env [file_clean])) = []
   \<and> sections (snd (init example_env [file_clean])) = []"
  by (simp add: init_unfold ingest_unfold split_unfold str_int_1 Let_def)

subsection \<open>The percentage of the general statistics\<close>

text \<open>
  C5. For a by-sample mapping whose counts fit a float, the general-statistics computation
  raises ZeroDivisionError if and only if some retained sample has total 0; when no total
  is 0 it succeeds and gives, for each sample, its total and the percentage
  100 * perfectIndex / total as float arithmetic gives it, written with one decimal place
  (total 200 and perfectIndex 150 give "75.0").
\<close>

theorem general_stats_division:
  assumes "\<forall>e \<in> set (bcl2fastq_bysample self).
             fits_float (perfectIndex (snd e)) \<and> fits_float (total_cnt (snd e))"
  shows "(add_general_stats env self = Inl ZeroDivisionError \<longleftrightarrow>
            (\<exists>e \<in> set (bcl2fastq_bysample self). total_cnt (snd e) = 0))
         \<and> ((\<forall>e \<in> set (bcl2fastq_bysample self). total_cnt (snd e) \<noteq> 0) \<longrightarrow>
              add_general_stats env self =
                Inr (self\<lparr>general_stats := general_stats self
                       @ [(map (\<lambda>e. (fst e,
                                       \<lparr>row_total = total_cnt (snd e),
                                        perfectPercent =
                                          format_percent (perfectIndex (snd e))
                                            (total_cnt (snd e))\<rparr>))
                             (bcl2fastq_bysample self),
                           general_stats_headers env)]\<rparr>))
         \<and> format_percent 150 200 = ''75.0''"
proof (intro conjI impI)
  show "add_general_stats env self = Inl ZeroDivisionError \<longleftrightarrow>
          (\<exists>e \<in> set (bcl2fastq_bysample self). total_cnt (snd e) = 0)"
    using stats_rows_zero_iff [OF assms]
    by (auto simp: add_general_stats_def split: sum.splits)
next
  assume "\<forall>e \<in> set (bcl2fastq_bysample self). total_cnt (snd e) \<noteq> 0"
  with assms have "stats_ok (bcl2fastq_bysample self)" by (simp add: stats_ok_def)
  then have "stats_rows (bcl2fastq_bysample self) = Inr (map stats_row_of (bcl2fastq_bysample self))"
    by (rule stats_rows_ok)
  then show "add_general_stats env self =
                Inr (self\<lparr>general_stats := general_stats self
                       @ [(map (\<lambda>e. (fst e,
                                       \<lparr>row_total = total_cnt (snd e),
                                        perfectPercent =
                                          format_percent (perfectIndex (snd e))
                                            (total_cnt (snd e))\<rparr>))
                             (bcl2fastq_bysample self),
                           general_stats_headers env)]\<rparr>)"
    by (simp add: add_general_stats_def stats_row_of_def [abs_def])
next
  show "format_percent 150 200 = ''75.0''" by (rule format_percent_75)
qed

theorem general_stats_division_witness:
  "add_general_stats example_env stats_module =
     Inr (stats_module\<lparr>general_stats :=
            [([(''RUN1 - S1'', \<lparr>row_total = 200, perfectPercent = ''75.0''\<rparr>),
               (''RUN1 - undetermined'', \<lparr>row_total = 10, perfectPercent = ''0.0''\<rparr>)],
              general_stats_headers example_env)]\<rparr>)"
proof -
  have f: "\<forall>e \<in> set (bcl2fastq_bysample stats_module).
             fits_float (perfectIndex (snd e)) \<and> fits_float (total_cnt (snd e))"
    by (simp add: stats_module_def fits_float_def)
  have z: "\<forall>e \<in> set (bcl2fastq_bysample stats_module). total_cnt (snd e) \<noteq> 0"
    by (simp add: stats_module_def)
  from general_stats_division [OF f, of example_env] z
  have "add_general_stats example_env stats_module =
          Inr (stats_module\<lparr>general_stats := general_stats stats_module
                 @ [(map (\<lambda>e. (fst e,
                                 \<lparr>row_total = total_cnt (snd e),
                                  perfectPercent =
                                    format_percent (perfectIndex (snd e))
                                      (total_cnt (snd e))\<rparr>))
                       (bcl2fastq_bysample stats_module),
                     general_stats_headers example_env)]\<rparr>)"
    by blast
  then show ?thesis
    by (simp add: stats_module_def new_module_def format_percent_75 format_percent_examples)
qed

text \<open>
  With a count beyond the range of a float the computation does not succeed although every
  total is positive: one sample with 10 ^ 400 reads makes \<^verbatim>\<open>__init__\<close> end with
  OverflowError.
\<close>

theorem general_stats_division_counterexample:
  "bcl2fastq_bysample (snd (init huge_env [file_huge])) =
     [(''RUN1 - S1'', \<lparr>total_cnt = 10 ^ 400, perfectIndex = 1, undetermined = None\<rparr>),
      (''RUN1 - undetermined'', \<lparr>total_cnt = 5, perfectIndex = 0, undetermined = None\<rparr>)]
   \<and> fst (init huge_env [file_huge]) = Some OverflowError"
  by (simp add: init_def report_outputs_def add_general_stats_def perfect_percent_def
      fits_float_def add_data_source_def huge_env_def file_huge_def huge_report_def
      ingest_unfold split_unfold str_int_1 Let_def)


end
